theory Spec2Isabelle
  imports Main "HOL-Library.Option_ord"
begin

section \<open>Python values, exceptions and settings\<close>

text \<open>
  Exceptions that the modelled code can raise or let through. \<open>UnboundLocalError\<close>
  carries the name of the local variable that was read before assignment,
  \<open>ModelFieldNotMappedError\<close> its message; \<open>OtherError\<close> stands for whatever a user hook
  or a cluster call raises.
\<close>

datatype error =
    UnboundLocalError string
  | ZeroDivisionError
  | EmptyPage
  | ModelFieldNotMappedError string
  | TypeError string
  | OtherError string

datatype pyval =
    VNone
  | VBool bool
  | VInt int
  | VStr string
  | VList "pyval list"

text \<open>
  The Django settings the two modules read. A setting read with
  \<open>getattr(settings, NAME, default)\<close> is an option (\<open>None\<close>: not configured).
  \<open>ELASTICSEARCH_DSL\<close> is the cluster map; only its keys, in dictionary order, are used.
  \<open>USE_I18N\<close> and \<open>LANGUAGE_CODE\<close> are Django's own settings that its translation
  machinery reads.
\<close>

record settings =
  ELASTICSEARCH_DSL_TRANSLATION_ENABLED :: "bool option"
  LANGUAGE_ENGLISH :: string
  LANGUAGE_ANALYSERS :: "string list"
  ES_INDEX_PREFIX :: "string option"
  ES_INDEX_SUFFIX :: "string option"
  ELASTICSEARCH_DSL :: "string list"
  ELASTICSEARCH_DSL_LOAD_PER_QUERY :: "int option"
  ELASTICSEARCH_DSL_CHUNK_SIZE :: "int option"
  ELASTICSEARCH_DSL_CHUNK_BYTES :: "int option"
  USE_I18N :: bool
  LANGUAGE_CODE :: string

text \<open>A Python dictionary with string keys: a query body, a prepared document.\<close>

type_synonym body = "string \<rightharpoonup> pyval"

definition getattr :: "'a option \<Rightarrow> 'a \<Rightarrow> 'a" where
  "getattr v dflt = (case v of None \<Rightarrow> dflt | Some x \<Rightarrow> x)"

section \<open>documents.py: index naming\<close>

text \<open>
  The \<open>index\<close> argument of \<open>get_custom_index_name\<close>: a list or tuple of names
  (\<open>Names\<close>), or anything else, in practice one name (\<open>Name\<close>).
\<close>

datatype index_arg = Name string | Names "string list"

text \<open>
  The template \<open>'{prefix}{index}{language}{suffix}'.format(...)\<close> with its four keyword
  arguments as the source computes them (lines 77-82 and 86-91).
\<close>

definition format_custom_index :: "string \<Rightarrow> string \<Rightarrow> bool \<Rightarrow> string \<Rightarrow> string \<Rightarrow> string" where
  "format_custom_index index_prefix i language_dsl_enabled language index_suffix =
     (if index_prefix \<noteq> [] then index_prefix @ ''-'' else []) @ i @
     (if language_dsl_enabled then ''-'' @ language else []) @
     (if index_suffix \<noteq> [] then ''-'' @ index_suffix else [])"

text \<open>
  Reading a local variable of a Python function: a local that no executed statement has
  bound yet raises \<open>UnboundLocalError\<close>.
\<close>

definition read_local :: "string \<Rightarrow> 'a option \<Rightarrow> error + 'a" where
  "read_local var binding = (case binding of None \<Rightarrow> Inl (UnboundLocalError var) | Some v \<Rightarrow> Inr v)"

text \<open>
  \<open>DocType.get_custom_index_name\<close> (lines 66-94). \<open>default_index\<close> is the inherited
  class method \<open>cls._default_index\<close>. In the list branch the loop variable \<open>i\<close> runs over
  the elements. The other branch formats with \<open>index=i\<close> as well, but there no statement
  has bound the local \<open>i\<close>: \<open>i_binding\<close> is \<open>None\<close> on that path.
\<close>

definition get_custom_index_name ::
  "settings \<Rightarrow> (index_arg \<Rightarrow> index_arg) \<Rightarrow> index_arg \<Rightarrow> string option \<Rightarrow> error + index_arg" where
  "get_custom_index_name st default_index index language0 =
     (let language_dsl_enabled = getattr (ELASTICSEARCH_DSL_TRANSLATION_ENABLED st) False;
          language = (case language0 of
                        None \<Rightarrow> LANGUAGE_ENGLISH st
                      | Some l \<Rightarrow> if l \<noteq> [] then l else LANGUAGE_ENGLISH st);
          index_prefix = getattr (ES_INDEX_PREFIX st) [];
          index_suffix = getattr (ES_INDEX_SUFFIX st) [];
          computed =
            (case index of
               Names xs \<Rightarrow>
                 Inr (Names (map (\<lambda>i. format_custom_index index_prefix i language_dsl_enabled
                                          language index_suffix) xs))
             | Name n \<Rightarrow>
                 (let i_binding = (None :: string option) in
                  case read_local ''i'' i_binding of
                    Inl e \<Rightarrow> Inl e
                  | Inr i \<Rightarrow> Inr (Name (format_custom_index index_prefix i language_dsl_enabled
                                          language index_suffix))))
      in case computed of
           Inl e \<Rightarrow> Inl e
         | Inr index' \<Rightarrow>
             if \<not> (language_dsl_enabled \<and> index_prefix \<noteq> [] \<and> index_suffix \<noteq> [])
             then Inr (default_index index')
             else Inr index')"

text \<open>
  The naming rule in the specification's words: the present segments among prefix, base
  name, language and suffix, in that order, joined by single hyphens.
\<close>

fun join_hyphen :: "string list \<Rightarrow> string" where
  "join_hyphen [] = []"
| "join_hyphen [s] = s"
| "join_hyphen (s # t # ss) = s @ ''-'' @ join_hyphen (t # ss)"

definition spec_index_name :: "string \<Rightarrow> string \<Rightarrow> bool \<Rightarrow> string \<Rightarrow> string \<Rightarrow> string" where
  "spec_index_name index_prefix base language_dsl_enabled language index_suffix =
     join_hyphen ((if index_prefix \<noteq> [] then [index_prefix] else []) @ [base] @
                  (if language_dsl_enabled then [language] else []) @
                  (if index_suffix \<noteq> [] then [index_suffix] else []))"

section \<open>documents.py: mapping model fields to search fields\<close>

text \<open>
  The classes of Django model fields. The twenty classes that are keys of
  \<open>model_field_class_to_field_class\<close> are listed by name; \<open>models_Other\<close> is any other
  class (a relation such as \<open>ForeignKey\<close>, a \<open>DecimalField\<close>, a user's subclass). The
  lookup is by the exact class \<open>model_field.__class__\<close>, so a subclass of a listed class
  is an \<open>models_Other\<close> too.
\<close>

datatype model_field_class =
    models_AutoField
  | models_BigIntegerField
  | models_BooleanField
  | models_CharField
  | models_DateField
  | models_DateTimeField
  | models_EmailField
  | models_FileField
  | models_FilePathField
  | models_FloatField
  | models_ImageField
  | models_IntegerField
  | models_NullBooleanField
  | models_PositiveIntegerField
  | models_PositiveSmallIntegerField
  | models_SlugField
  | models_SmallIntegerField
  | models_TextField
  | models_TimeField
  | models_URLField
  | models_Other string

datatype field_class =
    BooleanField
  | DateField
  | DoubleField
  | FileField
  | IntegerField
  | KeywordField
  | LongField
  | ShortField
  | TextField

text \<open>The dictionary of lines 26-47; a class that is not a key has no entry.\<close>

fun model_field_class_to_field_class :: "model_field_class \<Rightarrow> field_class option" where
  "model_field_class_to_field_class models_AutoField = Some IntegerField"
| "model_field_class_to_field_class models_BigIntegerField = Some LongField"
| "model_field_class_to_field_class models_BooleanField = Some BooleanField"
| "model_field_class_to_field_class models_CharField = Some TextField"
| "model_field_class_to_field_class models_DateField = Some DateField"
| "model_field_class_to_field_class models_DateTimeField = Some DateField"
| "model_field_class_to_field_class models_EmailField = Some TextField"
| "model_field_class_to_field_class models_FileField = Some FileField"
| "model_field_class_to_field_class models_FilePathField = Some KeywordField"
| "model_field_class_to_field_class models_FloatField = Some DoubleField"
| "model_field_class_to_field_class models_ImageField = Some FileField"
| "model_field_class_to_field_class models_IntegerField = Some IntegerField"
| "model_field_class_to_field_class models_NullBooleanField = Some BooleanField"
| "model_field_class_to_field_class models_PositiveIntegerField = Some IntegerField"
| "model_field_class_to_field_class models_PositiveSmallIntegerField = Some ShortField"
| "model_field_class_to_field_class models_SlugField = Some KeywordField"
| "model_field_class_to_field_class models_SmallIntegerField = Some ShortField"
| "model_field_class_to_field_class models_TextField = Some TextField"
| "model_field_class_to_field_class models_TimeField = Some LongField"
| "model_field_class_to_field_class models_URLField = Some TextField"
| "model_field_class_to_field_class (models_Other c) = None"

text \<open>
  A search field instance as \<open>to_field\<close> constructs it: the class that was called and
  the keyword argument \<open>attr\<close> it was called with.
\<close>

record field_instance =
  constructed_class :: field_class
  attr :: string

text \<open>
  \<open>DocType.to_field\<close> (lines 165-179): the dictionary lookup, whose \<open>KeyError\<close> is
  turned into \<open>ModelFieldNotMappedError\<close> with the formatted message.
\<close>

definition to_field :: "string \<Rightarrow> model_field_class \<Rightarrow> error + field_instance" where
  "to_field field_name model_field_cls =
     (case model_field_class_to_field_class model_field_cls of
        Some c \<Rightarrow> Inr \<lparr>constructed_class = c, attr = field_name\<rparr>
      | None \<Rightarrow>
          Inl (ModelFieldNotMappedError
                 (''Cannot convert model field '' @ field_name @ '' to an Elasticsearch field!'')))"

section \<open>documents.py: preparing a document\<close>

text \<open>
  A declared field of a document class: whether it is an instance of \<open>DEDField\<close>, and its
  attribute path \<open>_path\<close>.
\<close>

record doc_field =
  is_DEDField :: bool
  path :: "string list"

text \<open>
  A document object, over model instances \<open>'i\<close> and related instances \<open>'r\<close>.
  \<open>doc_fields\<close> is \<open>self._fields\<close> as its items in dictionary order.
  \<open>prepare_with_related\<close> and \<open>prepare_hook\<close> give, for a field name, the method
  \<open>prepare_<name>_with_related\<close> or \<open>prepare_<name>\<close> when the class defines it.
  \<open>get_value_from_instance\<close> is the generic extractor of \<open>DEDField\<close> and
  \<open>default_index\<close> the inherited \<open>_default_index\<close>; both are defined outside the two
  modules. \<open>index_name\<close> is \<open>self._index._name\<close> and \<open>index_using\<close> is
  \<open>self._index._using\<close>, the connection alias the document's index is bound to
  (\<open>default\<close> unless the index declares another). Every hook is user code that may
  raise and may read the thread's active language as \<open>get_language()\<close> reports it,
  which it gets as its last argument.
\<close>

record ('i, 'r) doc_type =
  index_name :: index_arg
  index_using :: string
  doc_type_name :: string
  default_index :: "index_arg \<Rightarrow> index_arg"
  doc_fields :: "(string \<times> doc_field) list"
  prepare_with_related :: "string \<Rightarrow> ('i \<Rightarrow> 'r option \<Rightarrow> string option \<Rightarrow> error + pyval) option"
  prepare_hook :: "string \<Rightarrow> ('i \<Rightarrow> string option \<Rightarrow> error + pyval) option"
  translate_field :: "string \<Rightarrow> pyval \<Rightarrow> bool \<Rightarrow> string option \<Rightarrow> error + pyval"
  get_value_from_instance :: "doc_field \<Rightarrow> 'i \<Rightarrow> 'r option \<Rightarrow> string option \<Rightarrow> error + pyval"
  related_instance_to_ignore :: "'r option"
  queryset_pagination :: "int option"
  auto_refresh :: bool
  pk :: "'i \<Rightarrow> pyval"

text \<open>\<open>DocType.translate_field\<close> as the class defines it (lines 114-122).\<close>

definition DocType_translate_field ::
  "string \<Rightarrow> pyval \<Rightarrow> bool \<Rightarrow> string option \<Rightarrow> error + pyval" where
  "DocType_translate_field field_name val fail_silently active = Inr val"

text \<open>
  The body of the loop of \<open>prepare\<close> for one field that is a \<open>DEDField\<close> (lines 140-159):
  the value of the field, or the exception a hook raised.
\<close>

definition prepare_field ::
  "settings \<Rightarrow> ('i, 'r) doc_type \<Rightarrow> 'i \<Rightarrow> bool \<Rightarrow> string option \<Rightarrow> string \<Rightarrow> doc_field
   \<Rightarrow> error + pyval" where
  "prepare_field st d instance fail_silently active name field =
     (let field1 = (if path field = [] then field\<lparr>path := [name]\<rparr> else field);
          resolved =
            (case prepare_with_related d name of
               Some prep_func \<Rightarrow> prep_func instance (related_instance_to_ignore d) active
             | None \<Rightarrow>
                 (case prepare_hook d name of
                    Some prep_func \<Rightarrow> prep_func instance active
                  | None \<Rightarrow>
                      get_value_from_instance d field1 instance (related_instance_to_ignore d)
                        active))
      in case resolved of
           Inl e \<Rightarrow> Inl e
         | Inr field_value \<Rightarrow>
             if getattr (ELASTICSEARCH_DSL_TRANSLATION_ENABLED st) False
             then translate_field d name field_value fail_silently active
             else Inr field_value)"

text \<open>
  The loop of \<open>prepare\<close> (lines 136-161) over the remaining fields, with the dictionary
  \<open>data\<close> built so far. The first exception ends the loop.
\<close>

fun prepare_loop ::
  "settings \<Rightarrow> ('i, 'r) doc_type \<Rightarrow> 'i \<Rightarrow> bool \<Rightarrow> string option \<Rightarrow> (string \<times> doc_field) list
   \<Rightarrow> body \<Rightarrow> error + body" where
  "prepare_loop st d instance fail_silently active [] data = Inr data"
| "prepare_loop st d instance fail_silently active ((name, field) # rest) data =
     (if \<not> is_DEDField field then prepare_loop st d instance fail_silently active rest data
      else case prepare_field st d instance fail_silently active name field of
             Inl e \<Rightarrow> Inl e
           | Inr field_value \<Rightarrow>
               prepare_loop st d instance fail_silently active rest (data(name \<mapsto> field_value)))"

definition prepare ::
  "settings \<Rightarrow> ('i, 'r) doc_type \<Rightarrow> 'i \<Rightarrow> bool \<Rightarrow> string option \<Rightarrow> error + body" where
  "prepare st d instance fail_silently active =
     prepare_loop st d instance fail_silently active (doc_fields d) Map.empty"

section \<open>documents.py: bulk actions\<close>

text \<open>
  Django's translation state of a thread (\<open>django.utils.translation\<close>): nothing
  activated yet, all translations deactivated by \<open>deactivate_all()\<close>, or the
  translation of a language activated by \<open>activate(language)\<close>.
\<close>

datatype active_translation = NotActivated | Deactivated | Activated string

text \<open>
  \<open>to_language(locale)\<close>: lower case, with the first underscore turned into a hyphen
  (\<open>en_US\<close> becomes \<open>en-us\<close>). Letters outside ASCII are left as they are.
\<close>

definition lower_char :: "char \<Rightarrow> char" where
  "lower_char c =
     (case map_of (zip ''ABCDEFGHIJKLMNOPQRSTUVWXYZ'' ''abcdefghijklmnopqrstuvwxyz'') c of
        Some l \<Rightarrow> l
      | None \<Rightarrow> c)"

definition to_language :: "string \<Rightarrow> string" where
  "to_language locale =
     (if CHR ''_'' \<in> set locale
      then map lower_char (takeWhile (\<lambda>c. c \<noteq> CHR ''_'') locale) @ ''-'' @
           map lower_char (tl (dropWhile (\<lambda>c. c \<noteq> CHR ''_'') locale))
      else map lower_char locale)"

text \<open>
  \<open>get_language()\<close>, \<open>activate(language)\<close> and \<open>deactivate_all()\<close>. With
  \<open>USE_I18N\<close> off the last two do nothing and the first reports \<open>LANGUAGE_CODE\<close>.
  Otherwise \<open>get_language()\<close> reports the normalised name of the activated language,
  \<open>None\<close> after \<open>deactivate_all()\<close> and \<open>LANGUAGE_CODE\<close> when nothing was activated;
  \<open>activate\<close> returns at once on an empty language.
\<close>

definition get_language :: "settings \<Rightarrow> active_translation \<Rightarrow> string option" where
  "get_language st t =
     (if \<not> USE_I18N st then Some (LANGUAGE_CODE st)
      else case t of
             Activated l \<Rightarrow> Some (to_language l)
           | Deactivated \<Rightarrow> None
           | NotActivated \<Rightarrow> Some (LANGUAGE_CODE st))"

definition activate :: "settings \<Rightarrow> string \<Rightarrow> active_translation \<Rightarrow> active_translation" where
  "activate st language t =
     (if \<not> USE_I18N st then t else if language = [] then t else Activated language)"

definition deactivate_all :: "settings \<Rightarrow> active_translation \<Rightarrow> active_translation" where
  "deactivate_all st t = (if \<not> USE_I18N st then t else Deactivated)"

text \<open>
  \<open>with translation.override(language)\<close> around a body that may raise and may change
  the translation state. \<open>__enter__\<close> remembers \<open>get_language()\<close> and activates the
  requested language, or deactivates all translations when it is \<open>None\<close>.
  \<open>__exit__\<close>, on return and on exception alike, activates the remembered language,
  or deactivates all translations when \<open>None\<close> was remembered.
\<close>

definition override_enter :: "settings \<Rightarrow> string option \<Rightarrow> active_translation \<Rightarrow> active_translation" where
  "override_enter st language t =
     (case language of
        Some l \<Rightarrow> activate st l t
      | None \<Rightarrow> deactivate_all st t)"

definition override_exit :: "settings \<Rightarrow> string option \<Rightarrow> active_translation \<Rightarrow> active_translation" where
  "override_exit st old_language t =
     (case old_language of
        None \<Rightarrow> deactivate_all st t
      | Some l \<Rightarrow> activate st l t)"

definition translation_override ::
  "settings \<Rightarrow> string option \<Rightarrow> (active_translation \<Rightarrow> (error + 'a) \<times> active_translation)
   \<Rightarrow> active_translation \<Rightarrow> (error + 'a) \<times> active_translation" where
  "translation_override st language body t =
     (let old_language = get_language st t;
          (r, after_body) = body (override_enter st language t)
      in (r, override_exit st old_language after_body))"

record bulk_action =
  op_type :: string
  index :: index_arg
  type_name :: string
  doc_id :: pyval
  source :: "body option"

text \<open>
  \<open>DocType._prepare_action\<close> (lines 205-215). The dictionary display evaluates its
  values in order, so the index name is computed before the document is prepared. The
  hooks of \<open>prepare\<close> read the language that \<open>get_language()\<close> reports inside the
  \<open>with\<close> block.
\<close>

definition prepare_action ::
  "settings \<Rightarrow> ('i, 'r) doc_type \<Rightarrow> 'i \<Rightarrow> string \<Rightarrow> string option \<Rightarrow> bool \<Rightarrow> active_translation
   \<Rightarrow> (error + bulk_action) \<times> active_translation" where
  "prepare_action st d object_instance action language fail_silently =
     translation_override st language
       (\<lambda>t.
          (case get_custom_index_name st (default_index d) (index_name d) language of
             Inl e \<Rightarrow> Inl e
           | Inr idx \<Rightarrow>
               (case (if action \<noteq> ''delete''
                      then (case prepare st d object_instance fail_silently (get_language st t) of
                              Inl e \<Rightarrow> Inl e | Inr data \<Rightarrow> Inr (Some data))
                      else Inr None) of
                  Inl e \<Rightarrow> Inl e
                | Inr src \<Rightarrow>
                    Inr \<lparr>op_type = action, index = idx, type_name = doc_type_name d,
                         doc_id = pk d object_instance, source = src\<rparr>),
           t))"

subsection \<open>Generators\<close>

text \<open>
  A run of a generator to its end: the values it yields, then the exception that ends it
  if one does, together with the state it leaves. \<open>gen_yield\<close> is \<open>yield e\<close> for an
  expression that may raise, \<open>gen_for\<close> a \<open>for\<close> loop whose body yields, \<open>gen_try\<close> the
  evaluation of an expression that may raise before the loop over its value.
\<close>

type_synonym ('a, 's) generated = "'s \<Rightarrow> ('a list \<times> error option) \<times> 's"

definition gen_yield :: "('s \<Rightarrow> (error + 'a) \<times> 's) \<Rightarrow> ('a, 's) generated" where
  "gen_yield expr s =
     (case expr s of
        (Inl e, s') \<Rightarrow> (([], Some e), s')
      | (Inr v, s') \<Rightarrow> (([v], None), s'))"

fun gen_for :: "'x list \<Rightarrow> ('x \<Rightarrow> ('a, 's) generated) \<Rightarrow> ('a, 's) generated" where
  "gen_for [] loop_body s = (([], None), s)"
| "gen_for (x # xs) loop_body s =
     (case loop_body x s of
        ((ys, Some e), s') \<Rightarrow> ((ys, Some e), s')
      | ((ys, None), s') \<Rightarrow>
          (case gen_for xs loop_body s' of ((zs, r), s'') \<Rightarrow> ((ys @ zs, r), s'')))"

definition gen_try :: "error + 'x \<Rightarrow> ('x \<Rightarrow> ('a, 's) generated) \<Rightarrow> ('a, 's) generated" where
  "gen_try r k s = (case r of Inl e \<Rightarrow> (([], Some e), s) | Inr v \<Rightarrow> k v s)"

subsection \<open>Django's paginator\<close>

text \<open>
  \<open>django.core.paginator.Paginator(object_list, per_page)\<close> with its defaults
  \<open>orphans=0\<close> and \<open>allow_empty_first_page=True\<close>. \<open>num_pages\<close> is
  \<open>ceil(max(1, count) / per_page)\<close>, \<open>page_range\<close> is \<open>range(1, num_pages + 1)\<close>, and
  \<open>page(number)\<close> validates the number and slices the object list.
\<close>

record 'i paginator =
  object_list :: "'i list"
  per_page :: int

definition py_slice :: "'a list \<Rightarrow> int \<Rightarrow> int \<Rightarrow> 'a list" where
  "py_slice xs lo hi =
     (let n = int (length xs);
          l = (if lo < 0 then max 0 (n + lo) else min lo n);
          h = (if hi < 0 then max 0 (n + hi) else min hi n)
      in take (nat (h - l)) (drop (nat l) xs))"

definition num_pages :: "'i paginator \<Rightarrow> error + int" where
  "num_pages p =
     (let hits = max 1 (int (length (object_list p)) - 0) in
      if per_page p = 0 then Inl ZeroDivisionError
      else Inr (- ((- hits) div per_page p)))"

definition page_range :: "'i paginator \<Rightarrow> error + int list" where
  "page_range p = (case num_pages p of Inl e \<Rightarrow> Inl e | Inr n \<Rightarrow> Inr [1..n])"

definition paginator_page :: "'i paginator \<Rightarrow> int \<Rightarrow> error + 'i list" where
  "paginator_page p number =
     (case num_pages p of
        Inl e \<Rightarrow> Inl e
      | Inr n \<Rightarrow>
          if number < 1 then Inl EmptyPage
          else if number > n \<and> number \<noteq> 1 then Inl EmptyPage
          else (let bottom = (number - 1) * per_page p;
                    top0 = bottom + per_page p;
                    count = int (length (object_list p));
                    top = (if top0 + 0 \<ge> count then count else top0)
                in Inr (py_slice (object_list p) bottom top)))"

subsection \<open>The action generator\<close>

text \<open>
  \<open>DocType._get_actions\<close> (lines 217-245), run to its end from a given translation
  state. Without translation \<open>_prepare_action\<close> is called with its defaults
  \<open>language=None\<close> and \<open>fail_silently=True\<close>.
\<close>

definition get_actions ::
  "settings \<Rightarrow> ('i, 'r) doc_type \<Rightarrow> 'i list \<Rightarrow> string \<Rightarrow> bool
   \<Rightarrow> (bulk_action, active_translation) generated" where
  "get_actions st d objects action fail_silently =
     (if getattr (ELASTICSEARCH_DSL_TRANSLATION_ENABLED st) False then
        (case queryset_pagination d of
           Some page_size \<Rightarrow>
             (let paginator = \<lparr>object_list = objects, per_page = page_size\<rparr> in
              gen_try (page_range paginator) (\<lambda>pages.
                gen_for pages (\<lambda>page.
                  gen_try (paginator_page paginator page) (\<lambda>page_objects.
                    gen_for page_objects (\<lambda>object_instance.
                      gen_for (LANGUAGE_ANALYSERS st) (\<lambda>language.
                        gen_yield (prepare_action st d object_instance action (Some language)
                                     fail_silently)))))))
         | None \<Rightarrow>
             gen_for objects (\<lambda>object_instance.
               gen_for (LANGUAGE_ANALYSERS st) (\<lambda>language.
                 gen_yield (prepare_action st d object_instance action (Some language)
                              fail_silently))))
      else
        (case queryset_pagination d of
           Some page_size \<Rightarrow>
             (let paginator = \<lparr>object_list = objects, per_page = page_size\<rparr> in
              gen_try (page_range paginator) (\<lambda>pages.
                gen_for pages (\<lambda>page.
                  gen_try (paginator_page paginator page) (\<lambda>page_objects.
                    gen_for page_objects (\<lambda>object_instance.
                      gen_yield (prepare_action st d object_instance action None True))))))
         | None \<Rightarrow>
             gen_for objects (\<lambda>object_instance.
               gen_yield (prepare_action st d object_instance action None True))))"

section \<open>documents.py: dispatch to the clusters\<close>

text \<open>
  The \<open>actions\<close> argument of \<open>bulk\<close>: a list, which every iteration walks from its
  start, or a generator, which is walked once. A generator is given by the run that is
  still ahead of it: the values it will yield and the exception that will end it, if any.
  \<open>iterate\<close> walks the object to its end and returns the object as the walk leaves it.
\<close>

datatype 'a actions =
    ActionList "'a list"
  | ActionGenerator "'a list" "error option"

fun iterate :: "'a actions \<Rightarrow> ('a list \<times> error option) \<times> 'a actions" where
  "iterate (ActionList xs) = ((xs, None), ActionList xs)"
| "iterate (ActionGenerator xs e) = ((xs, e), ActionGenerator [] None)"

text \<open>
  \<open>_get_using(using)\<close> of the search library is \<open>using or cls._index._using\<close>:
  the alias a call is made on. Without \<open>using\<close>, and for an empty alias, it is the
  alias the document's index is bound to.
\<close>

definition get_using :: "('i, 'r) doc_type \<Rightarrow> string option \<Rightarrow> string" where
  "get_using d using =
     (case using of
        None \<Rightarrow> index_using d
      | Some u \<Rightarrow> if u \<noteq> [] then u else index_using d)"

text \<open>
  \<open>elasticsearch.helpers.bulk(client, actions, **kwargs)\<close> for the client of one
  connection alias: it walks \<open>actions\<close>, sends what it reads to the cluster and returns
  the cluster's answer, or raises. An exception of the iterable passes through.
  \<open>cluster\<close> is the answer of the cluster behind an alias to the actions it is sent.
  A call is recorded as the alias with the actions the iterable holds for the call; a
  call that returns has read them all. The iterable is taken as walked to its end after
  any call; after a call that raised nothing depends on it, since the exception ends
  \<open>bulk\<close>.
\<close>

type_synonym 'a call = "string \<times> 'a list"

definition helpers_bulk ::
  "(string \<Rightarrow> 'a list \<Rightarrow> body \<Rightarrow> error + 'res) \<Rightarrow> string \<Rightarrow> 'a actions \<Rightarrow> body
   \<Rightarrow> (error + 'res) \<times> 'a actions \<times> 'a call" where
  "helpers_bulk cluster alias actions kwargs =
     (case iterate actions of
        ((items, pending), actions') \<Rightarrow>
          ((case pending of Some e \<Rightarrow> Inl e | None \<Rightarrow> cluster alias items kwargs),
           actions', (alias, items)))"

text \<open>
  The loop of \<open>DocType.bulk\<close> (lines 185-189) over the remaining aliases, with the
  \<open>actions\<close> object and the calls made so far. An exception ends the loop.
\<close>

fun bulk_loop ::
  "('i, 'r) doc_type \<Rightarrow> (string \<Rightarrow> 'a list \<Rightarrow> body \<Rightarrow> error + 'res) \<Rightarrow> body \<Rightarrow> string list
   \<Rightarrow> 'a actions \<Rightarrow> 'a call list \<Rightarrow> error option \<times> 'a actions \<times> 'a call list" where
  "bulk_loop d cluster kwargs [] actions calls = (None, actions, calls)"
| "bulk_loop d cluster kwargs (connection_alias # rest) actions calls =
     (if connection_alias \<noteq> ''default'' then
        (case helpers_bulk cluster (get_using d (Some connection_alias)) actions kwargs of
           (Inl e, actions', c) \<Rightarrow> (Some e, actions', calls @ [c])
         | (Inr r, actions', c) \<Rightarrow> bulk_loop d cluster kwargs rest actions' (calls @ [c]))
      else bulk_loop d cluster kwargs rest actions calls)"

text \<open>
  \<open>DocType.bulk\<close> (lines 181-191): the result or the exception, and the calls made.
  The last call is on \<open>self._get_connection()\<close>, the connection of the alias the
  document's index is bound to.
\<close>

definition bulk ::
  "settings \<Rightarrow> ('i, 'r) doc_type \<Rightarrow> (string \<Rightarrow> 'a list \<Rightarrow> body \<Rightarrow> error + 'res) \<Rightarrow> 'a actions
   \<Rightarrow> body \<Rightarrow> (error + 'res) \<times> 'a call list" where
  "bulk st d cluster actions kwargs =
     (case bulk_loop d cluster kwargs (ELASTICSEARCH_DSL st) actions [] of
        (Some e, actions', calls) \<Rightarrow> (Inl e, calls)
      | (None, actions', calls) \<Rightarrow>
          (case helpers_bulk cluster (get_using d None) actions' kwargs of
             (r, actions'', c) \<Rightarrow> (r, calls @ [c])))"

text \<open>
  \<open>DocType.save\<close> (lines 198-203). \<open>cluster_save\<close> is what the inherited \<open>save\<close>
  does on the cluster of an alias; the inherited \<open>save(using=...)\<close> resolves its
  \<open>using\<close> argument with \<open>_get_using\<close>. The calls are recorded by the alias they
  are made on. The last call is \<open>super().save(**kwargs)\<close>, without \<open>using\<close>.
\<close>

fun save_loop ::
  "('i, 'r) doc_type \<Rightarrow> (string \<Rightarrow> error + 'res) \<Rightarrow> string list \<Rightarrow> string list
   \<Rightarrow> error option \<times> string list" where
  "save_loop d cluster_save [] calls = (None, calls)"
| "save_loop d cluster_save (connection_alias # rest) calls =
     (if connection_alias \<noteq> ''default'' then
        (case cluster_save (get_using d (Some connection_alias)) of
           Inl e \<Rightarrow> (Some e, calls @ [get_using d (Some connection_alias)])
         | Inr r \<Rightarrow> save_loop d cluster_save rest (calls @ [get_using d (Some connection_alias)]))
      else save_loop d cluster_save rest calls)"

definition save ::
  "settings \<Rightarrow> ('i, 'r) doc_type \<Rightarrow> (string \<Rightarrow> error + 'res) \<Rightarrow> (error + 'res) \<times> string list" where
  "save st d cluster_save =
     (case save_loop d cluster_save (ELASTICSEARCH_DSL st) [] of
        (Some e, calls) \<Rightarrow> (Inl e, calls)
      | (None, calls) \<Rightarrow> (cluster_save (get_using d None), calls @ [get_using d None]))"

text \<open>
  \<open>DocType.delete\<close> (lines 193-196): the loop calls the inherited
  \<open>delete(using=...)\<close> for every alias, \<open>default\<close> included, in the order of the
  cluster map, and the method returns \<open>None\<close>.
\<close>

fun delete_loop ::
  "('i, 'r) doc_type \<Rightarrow> (string \<Rightarrow> error + 'res) \<Rightarrow> string list \<Rightarrow> string list
   \<Rightarrow> error option \<times> string list" where
  "delete_loop d cluster_delete [] calls = (None, calls)"
| "delete_loop d cluster_delete (connection_alias # rest) calls =
     (case cluster_delete (get_using d (Some connection_alias)) of
        Inl e \<Rightarrow> (Some e, calls @ [get_using d (Some connection_alias)])
      | Inr r \<Rightarrow> delete_loop d cluster_delete rest (calls @ [get_using d (Some connection_alias)]))"

definition delete ::
  "settings \<Rightarrow> ('i, 'r) doc_type \<Rightarrow> (string \<Rightarrow> error + 'res) \<Rightarrow> (error + unit) \<times> string list" where
  "delete st d cluster_delete =
     (case delete_loop d cluster_delete (ELASTICSEARCH_DSL st) [] of
        (Some e, calls) \<Rightarrow> (Inl e, calls)
      | (None, calls) \<Rightarrow> (Inr (), calls))"

text \<open>
  \<open>DocType.update\<close> (lines 247-267). \<open>thing\<close> is one model instance or an iterable of
  them. The generator object of \<open>_get_actions\<close> is passed to \<open>bulk\<close> unstarted; the
  first walk over it runs it, from the translation state of the calling thread. The call of
  \<open>bulk\<close> names \<open>chunk_size\<close> and \<open>max_chunk_bytes\<close> itself, so a caller's keyword
  argument of either name is a \<open>TypeError\<close>.
\<close>

datatype 'i thing = Model 'i | Iterable "'i list"

definition update ::
  "settings \<Rightarrow> ('i, 'r) doc_type \<Rightarrow> (string \<Rightarrow> bulk_action list \<Rightarrow> body \<Rightarrow> error + 'res)
   \<Rightarrow> 'i thing \<Rightarrow> bool option \<Rightarrow> string \<Rightarrow> bool \<Rightarrow> body \<Rightarrow> active_translation
   \<Rightarrow> (error + 'res) \<times> bulk_action call list" where
  "update st d cluster thing refresh action fail_silently kwargs0 active =
     (let kwargs1 = (if refresh = Some True \<or> (refresh = None \<and> auto_refresh d)
                     then kwargs0(''refresh'' \<mapsto> VBool True) else kwargs0);
          objects = (case thing of Model m \<Rightarrow> [m] | Iterable xs \<Rightarrow> xs);
          run = fst (get_actions st d objects action fail_silently active);
          kwargs2 = kwargs1
            (''chunk_size'' \<mapsto> VInt (getattr (ELASTICSEARCH_DSL_CHUNK_SIZE st) 500),
             ''max_chunk_bytes'' \<mapsto>
                VInt (getattr (ELASTICSEARCH_DSL_CHUNK_BYTES st) (100 * 1024 * 1024)))
      in if ''chunk_size'' \<in> dom kwargs1 \<or> ''max_chunk_bytes'' \<in> dom kwargs1
         then (Inl (TypeError ''bulk() got multiple values for keyword argument''), [])
         else bulk st d cluster (ActionGenerator (fst run) (snd run)) kwargs2)"

section \<open>search.py: query bodies\<close>

text \<open>
  \<open>Search.to_dict\<close> (lines 42-49). \<open>super_to_dict\<close> is the inherited
  \<open>to_dict(count=count, **kwargs)\<close> of the search library, which builds the query body
  from the search object and the keyword arguments; a body is a dictionary.
\<close>

definition to_dict :: "settings \<Rightarrow> (bool \<Rightarrow> body \<Rightarrow> body) \<Rightarrow> bool \<Rightarrow> body \<Rightarrow> body" where
  "to_dict st super_to_dict count kwargs =
     (let query_body = super_to_dict count kwargs in
      if \<not> count then
        (let query_body1 = (if ''from'' \<notin> dom query_body
                            then query_body(''from'' \<mapsto> VInt 0) else query_body);
             query_body2 = (if ''size'' \<notin> dom query_body1
                            then query_body1(''size'' \<mapsto>
                                   VInt (getattr (ELASTICSEARCH_DSL_LOAD_PER_QUERY st) 10))
                            else query_body1)
         in query_body2)
      else query_body)"

text \<open>
  A base \<open>to_dict\<close> for the examples: the body of a search with no query and no extras
  consists of the keyword arguments, which the base class merges into every body.
\<close>

definition kwargs_only :: "bool \<Rightarrow> body \<Rightarrow> body" where
  "kwargs_only count kwargs = kwargs"

definition example_settings :: settings where
  "example_settings =
     \<lparr>ELASTICSEARCH_DSL_TRANSLATION_ENABLED = Some True,
      LANGUAGE_ENGLISH = ''en'',
      LANGUAGE_ANALYSERS = [''en'', ''es''],
      ES_INDEX_PREFIX = Some ''dev'',
      ES_INDEX_SUFFIX = Some ''v1'',
      ELASTICSEARCH_DSL = [''default'', ''replica''],
      ELASTICSEARCH_DSL_LOAD_PER_QUERY = None,
      ELASTICSEARCH_DSL_CHUNK_SIZE = None,
      ELASTICSEARCH_DSL_CHUNK_BYTES = None,
      USE_I18N = True,
      LANGUAGE_CODE = ''en-us''\<rparr>"

definition plain_settings :: settings where
  "plain_settings =
     \<lparr>ELASTICSEARCH_DSL_TRANSLATION_ENABLED = None,
      LANGUAGE_ENGLISH = ''en'',
      LANGUAGE_ANALYSERS = [''en'', ''es''],
      ES_INDEX_PREFIX = None,
      ES_INDEX_SUFFIX = None,
      ELASTICSEARCH_DSL = [''replica'', ''default''],
      ELASTICSEARCH_DSL_LOAD_PER_QUERY = None,
      ELASTICSEARCH_DSL_CHUNK_SIZE = None,
      ELASTICSEARCH_DSL_CHUNK_BYTES = None,
      USE_I18N = True,
      LANGUAGE_CODE = ''en-us''\<rparr>"

section \<open>Defining a document class\<close>

text \<open>
  Modelled from the spec: the definition of a document class, which happens outside the
  two modules (only \<open>to_field\<close>, which it calls, is in \<open>documents.py\<close>). The
  specification has the error "raised at document-class definition time when a
  relational field type has no corresponding search field mapping; fatal, not retried,
  surfaces immediately to the defining code", from "a field-declaration introspection
  capability (field name to field class)". So the declared model fields, each a name and
  a class, are resolved by \<open>to_field\<close> one after the other, and the first failure ends
  the definition.
\<close>

fun define_document_fields ::
  "(string \<times> model_field_class) list \<Rightarrow> error + (string \<times> field_instance) list" where
  "define_document_fields [] = Inr []"
| "define_document_fields ((field_name, model_field_cls) # rest) =
     (case to_field field_name model_field_cls of
        Inl e \<Rightarrow> Inl e
      | Inr f \<Rightarrow>
          (case define_document_fields rest of
             Inl e \<Rightarrow> Inl e
           | Inr fs \<Rightarrow> Inr ((field_name, f) # fs)))"

text \<open>Whether an exception, or the outcome of a call, is \<open>ModelFieldNotMappedError\<close>.\<close>

fun is_ModelFieldNotMappedError :: "error \<Rightarrow> bool" where
  "is_ModelFieldNotMappedError (ModelFieldNotMappedError m) = True"
| "is_ModelFieldNotMappedError e = False"

definition raises_ModelFieldNotMappedError :: "error + 'a \<Rightarrow> bool" where
  "raises_ModelFieldNotMappedError r =
     (case r of Inl e \<Rightarrow> is_ModelFieldNotMappedError e | Inr v \<Rightarrow> False)"

section \<open>Auxiliary definitions for the statements\<close>

text \<open>
  The document \<open>d\<close> with every hook pinned to the language \<open>l\<close>: whatever the active
  language at the call, the hook runs as under \<open>l\<close>.
\<close>

definition under_language :: "string option \<Rightarrow> ('i, 'r) doc_type \<Rightarrow> ('i, 'r) doc_type" where
  "under_language l d =
     d\<lparr>prepare_with_related := (\<lambda>n. map_option (\<lambda>h i r a. h i r l) (prepare_with_related d n)),
       prepare_hook := (\<lambda>n. map_option (\<lambda>h i a. h i l) (prepare_hook d n)),
       translate_field := (\<lambda>n v fs a. translate_field d n v fs l),
       get_value_from_instance := (\<lambda>f i r a. get_value_from_instance d f i r l)\<rparr>"

text \<open>
  A small document class over instances named by strings: \<open>name\<close> has a
  \<open>prepare_name\<close> hook, \<open>owner\<close> has both hooks, \<open>color\<close> has none, and
  \<open>internal\<close> is not a \<open>DEDField\<close>.
\<close>

definition car_document :: "(string, unit) doc_type" where
  "car_document =
     \<lparr>index_name = Name ''cars'',
      index_using = ''default'',
      doc_type_name = ''doc'',
      default_index = id,
      doc_fields = [(''name'', \<lparr>is_DEDField = True, path = []\<rparr>),
                    (''color'', \<lparr>is_DEDField = True, path = []\<rparr>),
                    (''owner'', \<lparr>is_DEDField = True, path = [''owner'', ''name'']\<rparr>),
                    (''internal'', \<lparr>is_DEDField = False, path = []\<rparr>)],
      prepare_with_related =
        (\<lambda>n. if n = ''owner'' then Some (\<lambda>i r a. Inr (VStr (''owner of '' @ i))) else None),
      prepare_hook =
        (\<lambda>n. if n = ''name'' then Some (\<lambda>i a. Inr (VStr i))
             else if n = ''owner'' then Some (\<lambda>i a. Inl (OtherError ''unused''))
             else None),
      translate_field = DocType_translate_field,
      get_value_from_instance = (\<lambda>f i r a. Inr (VList (map VStr (path f)))),
      related_instance_to_ignore = None,
      queryset_pagination = None,
      auto_refresh = False,
      pk = VStr\<rparr>"

text \<open>
  A document class with a list of index names and one field, \<open>lang\<close>, whose
  \<open>prepare_lang\<close> hook returns the language that \<open>get_language()\<close> reports to it.
\<close>

definition language_probe :: "(string, unit) doc_type" where
  "language_probe =
     \<lparr>index_name = Names [''cars''],
      index_using = ''default'',
      doc_type_name = ''doc'',
      default_index = id,
      doc_fields = [(''lang'', \<lparr>is_DEDField = True, path = []\<rparr>)],
      prepare_with_related = (\<lambda>n. None),
      prepare_hook =
        (\<lambda>n. Some (\<lambda>i a. Inr (case a of None \<Rightarrow> VNone | Some l \<Rightarrow> VStr l))),
      translate_field = DocType_translate_field,
      get_value_from_instance = (\<lambda>f i r a. Inr VNone),
      related_instance_to_ignore = None,
      queryset_pagination = None,
      auto_refresh = False,
      pk = VStr\<rparr>"

text \<open>The value of the field \<open>lang\<close> in the document of a prepared action.\<close>

definition prepared_lang :: "error + bulk_action \<Rightarrow> pyval option" where
  "prepared_lang r =
     (case r of
        Inl e \<Rightarrow> None
      | Inr a \<Rightarrow> (case source a of None \<Rightarrow> None | Some data \<Rightarrow> data ''lang''))"

text \<open>
  The aliases on which \<open>bulk\<close> and \<open>save\<close> make their calls, in order: those of
  the cluster map other than \<open>default\<close>, as \<open>_get_using\<close> resolves them, and then the
  alias of the call without \<open>using\<close>.
\<close>

definition dispatch_order :: "settings \<Rightarrow> ('i, 'r) doc_type \<Rightarrow> string list" where
  "dispatch_order st d =
     map (\<lambda>k. get_using d (Some k)) (filter (\<lambda>k. k \<noteq> ''default'') (ELASTICSEARCH_DSL st))
     @ [get_using d None]"

text \<open>A cluster map whose replica raises on every call.\<close>

definition replica_down :: "string \<Rightarrow> 'a list \<Rightarrow> body \<Rightarrow> error + nat" where
  "replica_down alias items kwargs =
     (if alias = ''replica'' then Inl (OtherError ''replica is down'') else Inr (length items))"

text \<open>
  A cluster that accepts every request and answers with the number of actions it was
  sent, and the exception, if any, that ends a walk over an \<open>actions\<close> object.
\<close>

definition count_cluster :: "string \<Rightarrow> 'a list \<Rightarrow> body \<Rightarrow> error + nat" where
  "count_cluster alias items kwargs = Inr (length items)"

definition pending :: "'a actions \<Rightarrow> error option" where
  "pending actions = snd (fst (iterate actions))"

section \<open>search.py: from hits to a queryset\<close>

text \<open>
  A search object: its query (not looked into), the bound model \<open>_model\<close>, the
  \<open>_source\<close> filter and, once executed, the cached response \<open>_response\<close>, of which
  only the identifiers \<open>meta.id\<close> of the hits, in order, matter here.
\<close>

datatype source_spec =
    SourceUnset
  | SourceFields "string list"
  | SourceDict "string \<rightharpoonup> string list"

record ('q, 'm, 'k) search =
  query :: 'q
  model :: 'm
  source :: source_spec
  response :: "'k list option"

text \<open>
  \<open>Search._clone\<close> (lines 12-15): the copy made by the search library, which has no
  response yet, with the bound model copied over.
\<close>

definition clone :: "('q, 'm, 'k) search \<Rightarrow> ('q, 'm, 'k) search" where
  "clone self = (let s = self\<lparr>response := None\<rparr> in s\<lparr>model := model self\<rparr>)"

text \<open>
  \<open>self.source(key=val)\<close> of the search library: a clone whose source filter is a
  dictionary with \<open>key\<close> set to \<open>val\<close>; a filter that was not a dictionary is
  replaced.
\<close>

definition search_source :: "('q, 'm, 'k) search \<Rightarrow> string \<Rightarrow> string list \<Rightarrow> ('q, 'm, 'k) search" where
  "search_source self key val =
     (let s = clone self;
          dict = (case source s of SourceDict m \<Rightarrow> m | _ \<Rightarrow> Map.empty)
      in s\<lparr>source := SourceDict (dict(key \<mapsto> val))\<rparr>)"

text \<open>
  The queryset \<open>to_queryset\<close> builds, as an expression: the model, the list of the
  filter \<open>pk__in\<close>, and the ordering \<open>Case(When(pk=.., then=..), ...)\<close> if any.
\<close>

datatype 'k when_clause = When 'k nat

datatype 'k order_expr = Case "'k when_clause list"

record ('m, 'k) queryset =
  queryset_model :: 'm
  pk_in :: "'k list"
  order_by :: "'k order_expr option"

text \<open>
  \<open>Search.to_queryset\<close> (lines 17-40). \<open>execute\<close> is the cluster's answer to a
  search: the identifiers of the hits, or an exception. The result comes with the list of
  the searches that were executed.
\<close>

definition to_queryset ::
  "(('q, 'm, 'k) search \<Rightarrow> error + 'k list) \<Rightarrow> ('q, 'm, 'k) search \<Rightarrow> bool
   \<Rightarrow> (error + ('m, 'k) queryset) \<times> ('q, 'm, 'k) search list" where
  "to_queryset execute self keep_order =
     (let (hits, executed) =
            (case response self of
               Some r \<Rightarrow> (Inr r, [])
             | None \<Rightarrow> (let s = search_source self ''excludes'' [''*''] in (execute s, [s])))
      in case hits of
           Inl e \<Rightarrow> (Inl e, executed)
         | Inr pks \<Rightarrow>
             (let qs = \<lparr>queryset_model = model self, pk_in = pks, order_by = None\<rparr>;
                  qs1 = (if keep_order
                         then qs\<lparr>order_by :=
                                   Some (Case (map (\<lambda>(pos, p). When p pos) (List.enumerate 0 pks)))\<rparr>
                         else qs)
              in (Inr qs1, executed)))"

text \<open>
  What the database returns for such a queryset on a table given in its natural row
  order: the rows whose primary key is in the list, sorted, when an ordering is given,
  by the value of the \<open>CASE\<close> expression, which is the \<open>then\<close> of the first
  \<open>WHEN\<close> that matches the row's key and null when none does.
\<close>

fun case_value :: "'k when_clause list \<Rightarrow> 'k \<Rightarrow> nat option" where
  "case_value [] k = None"
| "case_value (When p pos # ws) k = (if k = p then Some pos else case_value ws k)"

definition rows :: "('row \<Rightarrow> 'k) \<Rightarrow> 'row list \<Rightarrow> ('m, 'k) queryset \<Rightarrow> 'row list" where
  "rows pk_of table qs =
     (let matching = filter (\<lambda>r. pk_of r \<in> set (pk_in qs)) table in
      case order_by qs of
        None \<Rightarrow> matching
      | Some (Case ws) \<Rightarrow> sort_key (\<lambda>r. case_value ws (pk_of r)) matching)"

text \<open>The elements of a list, each once, in the order of their first occurrences.\<close>

primrec first_occurrences :: "'a list \<Rightarrow> 'a list" where
  "first_occurrences [] = []"
| "first_occurrences (x # xs) = x # filter (\<lambda>y. y \<noteq> x) (first_occurrences xs)"

text \<open>
  A search that was not executed yet, and a cluster that answers with four hits, one
  identifier twice and one without a row in the table of the example.
\<close>

definition car_search :: "(string, string, nat) search" where
  "car_search = \<lparr>query = ''match_all'', model = ''Car'', source = SourceUnset, response = None\<rparr>"

definition car_hits :: "(string, string, nat) search \<Rightarrow> error + nat list" where
  "car_hits s = Inr [3, 9, 1, 3]"

section \<open>Index naming: results\<close>

lemma format_custom_index_spec:
  "format_custom_index p b en l s = spec_index_name p b en l s"
  by (simp add: format_custom_index_def spec_index_name_def)

lemma get_custom_index_name_Names:
  "get_custom_index_name st dflt (Names xs) lang =
     (let en = getattr (ELASTICSEARCH_DSL_TRANSLATION_ENABLED st) False;
          l = (case lang of None \<Rightarrow> LANGUAGE_ENGLISH st
               | Some l \<Rightarrow> if l \<noteq> [] then l else LANGUAGE_ENGLISH st);
          p = getattr (ES_INDEX_PREFIX st) [];
          s = getattr (ES_INDEX_SUFFIX st) [];
          names = Names (map (\<lambda>b. spec_index_name p b en l s) xs)
      in if en \<and> p \<noteq> [] \<and> s \<noteq> [] then Inr names else Inr (dflt names))"
  by (simp add: get_custom_index_name_def Let_def format_custom_index_spec)

text \<open>
  C3. A list input gives one computed name per element, in the input's order; an input
  that is not a list should give a single computed name by the same formatting. The code
  does the first. On an input that is not a list it raises \<open>UnboundLocalError\<close> for the
  local \<open>i\<close> instead of returning a name, here for the single name \<open>cars\<close> under
  settings that configure neither translation nor prefix nor suffix.
\<close>

theorem get_custom_index_name_single_raises:
  "get_custom_index_name plain_settings id (Name ''cars'') None = Inl (UnboundLocalError ''i'')
   \<and> get_custom_index_name plain_settings id (Names [''cars'', ''bikes'']) None
       = Inr (Names [''cars'', ''bikes''])"
  by (simp add: get_custom_index_name_def plain_settings_def getattr_def read_local_def
      format_custom_index_def)

text \<open>
  C5. The computed name is prefix, base, language (when translation is enabled) and
  suffix joined by single hyphens, returned raw when translation is enabled and prefix
  and suffix are both set. For a single base name the code computes no name at all:
  whatever the settings, the language and the base name, it raises
  \<open>UnboundLocalError\<close>; with translation, prefix \<open>dev\<close> and suffix \<open>v1\<close> configured the
  claim's raw string \<open>dev-cars-en-v1\<close> is reached only through a one-element list.
\<close>

theorem get_custom_index_name_Name_never_formats:
  "get_custom_index_name st dflt (Name base) lang = Inl (UnboundLocalError ''i'')
   \<and> get_custom_index_name example_settings dflt (Names [''cars'']) (Some ''en'')
       = Inr (Names [''dev-cars-en-v1''])"
  by (simp add: get_custom_index_name_def example_settings_def getattr_def read_local_def
      format_custom_index_def)

section \<open>Query bodies: results\<close>

text \<open>
  C7, as the code has it. A count query gets the base class's body back unchanged: the
  method adds neither \<open>from\<close> nor \<open>size\<close>. A non-count query always has both keys; each
  keeps the value of the base body when that has the key, and otherwise \<open>from\<close> is 0 and
  \<open>size\<close> is \<open>ELASTICSEARCH_DSL_LOAD_PER_QUERY\<close> (10 when not configured). No other key
  changes.
\<close>

theorem to_dict_pagination_defaults:
  "to_dict st base True kw = base True kw
   \<and> to_dict st base False kw =
       (base False kw)
         (''from'' \<mapsto> (case base False kw ''from'' of Some v \<Rightarrow> v | None \<Rightarrow> VInt 0),
          ''size'' \<mapsto> (case base False kw ''size'' of Some v \<Rightarrow> v
                        | None \<Rightarrow> VInt (getattr (ELASTICSEARCH_DSL_LOAD_PER_QUERY st) 10)))
   \<and> ''from'' \<in> dom (to_dict st base False kw)
   \<and> ''size'' \<in> dom (to_dict st base False kw)"
  by (auto simp add: to_dict_def Let_def fun_upd_def dom_def split: option.splits)

text \<open>
  The claim as stated, that a count query's body never contains \<open>size\<close>, fails when the
  base class's body has the key, as it does for \<open>to_dict(count=True, size=5)\<close>.
\<close>

theorem to_dict_count_keeps_size:
  "''size'' \<in> dom (to_dict plain_settings kwargs_only True [''size'' \<mapsto> VInt 5])"
  by (simp add: to_dict_def kwargs_only_def)

section \<open>Preparing a document: results\<close>

lemma prepare_loop_other:
  "prepare_loop st d inst fs a flds data0 = Inr data \<Longrightarrow> name \<notin> fst ` set flds \<Longrightarrow> data name = data0 name"
  by (induction flds arbitrary: data0) (auto split: if_splits sum.splits)

lemma prepare_loop_field:
  "prepare_loop st d inst fs a flds data0 = Inr data \<Longrightarrow> (name, field) \<in> set flds \<Longrightarrow>
   is_DEDField field \<Longrightarrow> distinct (map fst flds) \<Longrightarrow>
   \<exists>w. prepare_field st d inst fs a name field = Inr w \<and> data name = Some w"
proof (induction flds arbitrary: data0)
  case Nil
  then show ?case by simp
next
  case (Cons nf flds)
  obtain n f where nf: "nf = (n, f)" by (cases nf)
  show ?case
  proof (cases "(name, field) = (n, f)")
    case True
    with Cons.prems nf obtain w where w: "prepare_field st d inst fs a name field = Inr w"
      and rest: "prepare_loop st d inst fs a flds (data0(name \<mapsto> w)) = Inr data"
      by (auto split: sum.splits)
    from Cons.prems nf True have "name \<notin> fst ` set flds" by auto
    with rest have "data name = Some w" using prepare_loop_other by fastforce
    with w show ?thesis by blast
  next
    case False
    with Cons.prems nf have mem: "(name, field) \<in> set flds" by auto
    from Cons.prems nf have dist: "distinct (map fst flds)" by simp
    from Cons.prems nf obtain data1 where "prepare_loop st d inst fs a flds data1 = Inr data"
      by (auto split: if_splits sum.splits)
    from Cons.IH[OF this mem Cons.prems(3) dist] show ?thesis .
  qed
qed

text \<open>
  C6. When \<open>prepare\<close> returns, every declared field that is a \<open>DEDField\<close> has its
  value resolved in this priority: the \<open>prepare_<name>_with_related\<close> hook on the
  instance and the related instance to ignore, if the class defines it; otherwise the
  \<open>prepare_<name>\<close> hook on the instance, if defined; otherwise the generic extractor
  on the field, whose path is the field name when none was declared. With translation
  enabled the resolved value goes through \<open>translate_field\<close> with the field name and
  \<open>fail_silently\<close>, and the result is stored under the field name; the class's own
  \<open>translate_field\<close> returns the value unchanged.
\<close>

theorem prepare_resolution_order:
  assumes "prepare st d inst fs a = Inr data"
      and "(name, field) \<in> set (doc_fields d)"
      and "is_DEDField field"
      and "distinct (map fst (doc_fields d))"
  shows "\<exists>v w.
           (case prepare_with_related d name of
              Some h \<Rightarrow> h inst (related_instance_to_ignore d) a
            | None \<Rightarrow>
                (case prepare_hook d name of
                   Some h \<Rightarrow> h inst a
                 | None \<Rightarrow>
                     get_value_from_instance d
                       (if path field = [] then field\<lparr>path := [name]\<rparr> else field)
                       inst (related_instance_to_ignore d) a)) = Inr v
         \<and> (if getattr (ELASTICSEARCH_DSL_TRANSLATION_ENABLED st) False
            then translate_field d name v fs a else Inr v) = Inr w
         \<and> data name = Some w
         \<and> DocType_translate_field name v fs a = Inr v"
proof -
  from assms(1) have "prepare_loop st d inst fs a (doc_fields d) Map.empty = Inr data"
    by (simp add: prepare_def)
  from prepare_loop_field [OF this assms(2) assms(3) assms(4)]
  obtain w where w: "prepare_field st d inst fs a name field = Inr w"
    and dw: "data name = Some w"
    by blast
  define resolved where "resolved =
           (case prepare_with_related d name of
              Some h \<Rightarrow> h inst (related_instance_to_ignore d) a
            | None \<Rightarrow>
                (case prepare_hook d name of
                   Some h \<Rightarrow> h inst a
                 | None \<Rightarrow>
                     get_value_from_instance d
                       (if path field = [] then field\<lparr>path := [name]\<rparr> else field)
                       inst (related_instance_to_ignore d) a))"
  from w have "(case resolved of
                  Inl e \<Rightarrow> Inl e
                | Inr v \<Rightarrow> if getattr (ELASTICSEARCH_DSL_TRANSLATION_ENABLED st) False
                           then translate_field d name v fs a else Inr v) = Inr w"
    unfolding prepare_field_def Let_def resolved_def by simp
  then obtain v where v: "resolved = Inr v"
    and t: "(if getattr (ELASTICSEARCH_DSL_TRANSLATION_ENABLED st) False
             then translate_field d name v fs a else Inr v) = Inr w"
    by (cases resolved) simp_all
  have "DocType_translate_field name v fs a = Inr v"
    by (simp add: DocType_translate_field_def)
  with v t dw show ?thesis
    unfolding resolved_def by blast
qed

theorem prepare_resolution_order_witness:
  "prepare example_settings car_document ''kia'' True (Some ''es'')
     = Inr [''name'' \<mapsto> VStr ''kia'', ''color'' \<mapsto> VList [VStr ''color''],
            ''owner'' \<mapsto> VStr ''owner of kia'']
   \<and> (''owner'', \<lparr>is_DEDField = True, path = [''owner'', ''name'']\<rparr>) \<in> set (doc_fields car_document)
   \<and> distinct (map fst (doc_fields car_document))
   \<and> (\<exists>v w. Inr (VStr ''owner of kia'') = Inr v
            \<and> DocType_translate_field ''owner'' v True (Some ''es'') = Inr w
            \<and> [''name'' \<mapsto> VStr ''kia'', ''color'' \<mapsto> VList [VStr ''color''],
                ''owner'' \<mapsto> VStr ''owner of kia''] ''owner'' = Some w)"
proof -
  have h1: "prepare example_settings car_document ''kia'' True (Some ''es'')
     = Inr [''name'' \<mapsto> VStr ''kia'', ''color'' \<mapsto> VList [VStr ''color''],
            ''owner'' \<mapsto> VStr ''owner of kia'']"
    by (simp add: prepare_def prepare_field_def car_document_def example_settings_def
        getattr_def DocType_translate_field_def)
  have h2: "(''owner'', \<lparr>is_DEDField = True, path = [''owner'', ''name'']\<rparr>) \<in> set (doc_fields car_document)"
    by (simp add: car_document_def)
  have h3: "is_DEDField \<lparr>is_DEDField = True, path = [''owner'', ''name'']\<rparr>" by simp
  have h4: "distinct (map fst (doc_fields car_document))"
    by (simp add: car_document_def)
  from prepare_resolution_order [OF h1 h2 h3 h4] h1 h2 h4 show ?thesis
    by (simp add: car_document_def example_settings_def getattr_def)
qed

lemma prepare_field_under_language:
  "prepare_field st (under_language l d) inst fs a name field
     = prepare_field st d inst fs l name field"
proof -
  have r: "related_instance_to_ignore (under_language l d) = related_instance_to_ignore d"
    by (simp add: under_language_def)
  have h1: "prepare_with_related (under_language l d) name
              = map_option (\<lambda>h i r a. h i r l) (prepare_with_related d name)"
    by (simp add: under_language_def)
  have h2: "prepare_hook (under_language l d) name
              = map_option (\<lambda>h i a. h i l) (prepare_hook d name)"
    by (simp add: under_language_def)
  have h3: "get_value_from_instance (under_language l d)
              = (\<lambda>f i r a. get_value_from_instance d f i r l)"
    by (simp add: under_language_def)
  have h4: "translate_field (under_language l d) = (\<lambda>n v fs a. translate_field d n v fs l)"
    by (simp add: under_language_def)
  show ?thesis
    unfolding prepare_field_def Let_def r h1 h2 h3 h4
    by (cases "prepare_with_related d name"; cases "prepare_hook d name") simp_all
qed

lemma prepare_loop_under_language:
  "prepare_loop st (under_language l d) inst fs a flds data
     = prepare_loop st d inst fs l flds data"
proof (induction flds arbitrary: data)
  case Nil
  show ?case by simp
next
  case (Cons nf flds)
  obtain n f where nf: "nf = (n, f)" by (cases nf)
  show ?case
  proof (cases "prepare_field st d inst fs l n f")
    case (Inl e)
    then show ?thesis
      by (simp add: nf prepare_field_under_language Cons.IH [of data])
  next
    case (Inr b)
    then show ?thesis
      by (simp add: nf prepare_field_under_language Cons.IH del: fun_upd_apply)
  qed
qed

lemma prepare_under_language:
  "prepare st (under_language l d) inst fs a = prepare st d inst fs l"
  by (simp add: prepare_def prepare_loop_under_language) (simp add: under_language_def)

lemma under_language_same:
  "default_index (under_language l d) = default_index d"
  "index_name (under_language l d) = index_name d"
  "doc_type_name (under_language l d) = doc_type_name d"
  "pk (under_language l d) = pk d"
  by (simp_all add: under_language_def)

lemma translation_override_pure:
  "translation_override st language (\<lambda>t. (f t, t)) t
     = (f (override_enter st language t),
        override_exit st (get_language st t) (override_enter st language t))"
  by (simp add: translation_override_def)

lemma language_in_override:
  "get_language st (override_enter st language t)
     = (if \<not> USE_I18N st then Some (LANGUAGE_CODE st)
        else case language of
               None \<Rightarrow> None
             | Some l \<Rightarrow> if l = [] then get_language st t else Some (to_language l))"
  by (cases language; cases t)
     (simp_all add: override_enter_def get_language_def activate_def deactivate_all_def)

lemma override_exit_restores:
  assumes "\<not> USE_I18N st \<or> old = None \<or> (\<exists>l. old = Some l \<and> l \<noteq> [] \<and> to_language l = l)"
  shows "get_language st (override_exit st old t)
           = (if \<not> USE_I18N st then Some (LANGUAGE_CODE st) else old)"
  using assms
  by (cases old) (auto simp add: override_exit_def get_language_def activate_def deactivate_all_def)

lemma translation_override_restores:
  assumes "\<not> USE_I18N st \<or> get_language st t = None
           \<or> (\<exists>l. get_language st t = Some l \<and> l \<noteq> [] \<and> to_language l = l)"
  shows "get_language st (snd (translation_override st language body t)) = get_language st t"
proof -
  obtain r after where b: "body (override_enter st language t) = (r, after)"
    by (cases "body (override_enter st language t)")
  have "get_language st (override_exit st (get_language st t) after)
          = (if \<not> USE_I18N st then Some (LANGUAGE_CODE st) else get_language st t)"
    using assms by (rule override_exit_restores)
  moreover have "\<not> USE_I18N st \<Longrightarrow> get_language st t = Some (LANGUAGE_CODE st)"
    by (simp add: get_language_def)
  ultimately show ?thesis
    by (auto simp add: translation_override_def b)
qed

text \<open>
  C9, as the code has it. Document preparation runs under the language that
  \<open>get_language()\<close> reports inside the \<open>with\<close> block: the outcome of
  \<open>_prepare_action\<close> is the one obtained with every hook pinned to that language.
  With \<open>USE_I18N\<close> on, that language is the requested one in Django's normalised
  form when the requested language is not empty, none when \<open>None\<close> is requested, and
  the language active before when the empty string is requested; with \<open>USE_I18N\<close> off
  it is \<open>LANGUAGE_CODE\<close>. When \<open>_prepare_action\<close> returns or raises,
  \<open>get_language()\<close> reports the language it reported before the call, provided that
  one was none or a non-empty name in normalised form, or \<open>USE_I18N\<close> is off.
\<close>

theorem prepare_action_language_scoped:
  "fst (prepare_action st d obj action language fs t)
     = fst (prepare_action st
              (under_language (get_language st (override_enter st language t)) d)
              obj action language fs t')
   \<and> get_language st (override_enter st language t)
       = (if \<not> USE_I18N st then Some (LANGUAGE_CODE st)
          else case language of
                 None \<Rightarrow> None
               | Some l \<Rightarrow> if l = [] then get_language st t else Some (to_language l))
   \<and> (\<not> USE_I18N st \<or> get_language st t = None
        \<or> (\<exists>l. get_language st t = Some l \<and> l \<noteq> [] \<and> to_language l = l)
      \<longrightarrow> get_language st (snd (prepare_action st d obj action language fs t))
            = get_language st t)"
proof (intro conjI impI)
  show "fst (prepare_action st d obj action language fs t)
     = fst (prepare_action st
              (under_language (get_language st (override_enter st language t)) d)
              obj action language fs t')"
    unfolding prepare_action_def translation_override_pure
    by (simp add: under_language_same prepare_under_language cong: sum.case_cong)
next
  show "get_language st (override_enter st language t)
       = (if \<not> USE_I18N st then Some (LANGUAGE_CODE st)
          else case language of
                 None \<Rightarrow> None
               | Some l \<Rightarrow> if l = [] then get_language st t else Some (to_language l))"
    by (rule language_in_override)
next
  assume "\<not> USE_I18N st \<or> get_language st t = None
        \<or> (\<exists>l. get_language st t = Some l \<and> l \<noteq> [] \<and> to_language l = l)"
  then show "get_language st (snd (prepare_action st d obj action language fs t))
            = get_language st t"
    unfolding prepare_action_def by (rule translation_override_restores)
qed

lemma prepare_language_probe:
  "prepare st language_probe x fs a = Inr [''lang'' \<mapsto> (case a of None \<Rightarrow> VNone | Some l \<Rightarrow> VStr l)]"
  by (simp add: prepare_def prepare_field_def language_probe_def DocType_translate_field_def)

lemma prepared_lang_probe:
  "prepared_lang (fst (prepare_action st language_probe x ''index'' language fs t))
     = Some (case get_language st (override_enter st language t) of
               None \<Rightarrow> VNone | Some l \<Rightarrow> VStr l)"
proof -
  have n: "index_name language_probe = Names [''cars'']"
    by (simp add: language_probe_def)
  show ?thesis
    unfolding prepare_action_def translation_override_pure
    by (simp add: prepared_lang_def n get_custom_index_name_Names Let_def prepare_language_probe)
qed

lemma to_language_examples:
  "to_language ''en_US'' = ''en-us''"
  "to_language ''pt-BR'' = ''pt-br''"
  "to_language ''fr'' = ''fr''"
  "to_language ''es'' = ''es''"
  by (simp_all add: to_language_def lower_char_def)

text \<open>
  The claim as stated fails in four ways. Asked for the empty language while \<open>fr\<close>
  is active, the preparation runs under \<open>fr\<close>; asked for \<open>en_US\<close>, it runs under
  \<open>en-us\<close>; with \<open>USE_I18N\<close> off and asked for \<open>es\<close>, it runs under
  \<open>LANGUAGE_CODE\<close>; and from a thread in which nothing was activated, with
  \<open>LANGUAGE_CODE\<close> set to \<open>pt-BR\<close>, \<open>get_language()\<close> reports \<open>pt-BR\<close> before
  the call and \<open>pt-br\<close> after it.
\<close>

theorem prepare_action_language_not_requested:
  "prepared_lang (fst (prepare_action example_settings language_probe ''kia'' ''index''
                         (Some []) True (Activated ''fr''))) = Some (VStr ''fr'')
   \<and> prepared_lang (fst (prepare_action example_settings language_probe ''kia'' ''index''
                         (Some ''en_US'') True (Activated ''fr''))) = Some (VStr ''en-us'')
   \<and> prepared_lang (fst (prepare_action (example_settings\<lparr>USE_I18N := False\<rparr>) language_probe
                         ''kia'' ''index'' (Some ''es'') True (Activated ''fr'')))
       = Some (VStr ''en-us'')
   \<and> get_language (example_settings\<lparr>LANGUAGE_CODE := ''pt-BR''\<rparr>) NotActivated = Some ''pt-BR''
   \<and> get_language (example_settings\<lparr>LANGUAGE_CODE := ''pt-BR''\<rparr>)
        (snd (prepare_action (example_settings\<lparr>LANGUAGE_CODE := ''pt-BR''\<rparr>) language_probe
                ''kia'' ''index'' (Some ''es'') True NotActivated)) = Some ''pt-br''"
proof -
  have u: "USE_I18N example_settings" by (simp add: example_settings_def)
  have g: "get_language example_settings (Activated ''fr'') = Some ''fr''"
    by (simp add: get_language_def u to_language_examples)
  have 1: "prepared_lang (fst (prepare_action example_settings language_probe ''kia'' ''index''
                         (Some []) True (Activated ''fr''))) = Some (VStr ''fr'')"
    by (simp add: prepared_lang_probe language_in_override u g)
  have 2: "prepared_lang (fst (prepare_action example_settings language_probe ''kia'' ''index''
                         (Some ''en_US'') True (Activated ''fr''))) = Some (VStr ''en-us'')"
    by (simp add: prepared_lang_probe language_in_override u to_language_examples)
  have 3: "prepared_lang (fst (prepare_action (example_settings\<lparr>USE_I18N := False\<rparr>) language_probe
                         ''kia'' ''index'' (Some ''es'') True (Activated ''fr'')))
       = Some (VStr ''en-us'')"
    by (simp add: prepared_lang_probe language_in_override) (simp add: example_settings_def)
  have 4: "get_language (example_settings\<lparr>LANGUAGE_CODE := ''pt-BR''\<rparr>) NotActivated = Some ''pt-BR''"
    by (simp add: get_language_def u)
  have 5: "get_language (example_settings\<lparr>LANGUAGE_CODE := ''pt-BR''\<rparr>)
        (snd (prepare_action (example_settings\<lparr>LANGUAGE_CODE := ''pt-BR''\<rparr>) language_probe
                ''kia'' ''index'' (Some ''es'') True NotActivated)) = Some ''pt-br''"
    unfolding prepare_action_def translation_override_pure
    by (simp add: get_language_def u override_exit_def override_enter_def activate_def
        to_language_examples)
  from 1 2 3 4 5 show ?thesis by blast
qed

theorem prepare_action_language_scoped_witness:
  "get_language example_settings (Activated ''fr'') = Some ''fr''
   \<and> to_language ''fr'' = ''fr''
   \<and> prepared_lang (fst (prepare_action example_settings language_probe ''kia'' ''index''
                         (Some ''es'') True (Activated ''fr''))) = Some (VStr ''es'')
   \<and> get_language example_settings
        (snd (prepare_action example_settings language_probe ''kia'' ''index''
                (Some ''es'') True (Activated ''fr''))) = Some ''fr''
   \<and> fst (prepare_action example_settings car_document ''kia'' ''index''
            (Some ''es'') True (Activated ''fr'')) = Inl (UnboundLocalError ''i'')
   \<and> get_language example_settings
        (snd (prepare_action example_settings car_document ''kia'' ''index''
                (Some ''es'') True (Activated ''fr''))) = Some ''fr''"
proof -
  have u: "USE_I18N example_settings" by (simp add: example_settings_def)
  have g: "get_language example_settings (Activated ''fr'') = Some ''fr''"
    by (simp add: get_language_def u to_language_examples)
  have n: "index_name car_document = Name ''cars''" by (simp add: car_document_def)
  have e: "fst (prepare_action example_settings car_document ''kia'' ''index''
            (Some ''es'') True (Activated ''fr'')) = Inl (UnboundLocalError ''i'')"
    unfolding prepare_action_def translation_override_pure
    by (simp add: n get_custom_index_name_def read_local_def Let_def)
  have p: "prepared_lang (fst (prepare_action example_settings language_probe ''kia'' ''index''
                         (Some ''es'') True (Activated ''fr''))) = Some (VStr ''es'')"
    by (simp add: prepared_lang_probe language_in_override u to_language_examples)
  from prepare_action_language_scoped [of example_settings language_probe "''kia''" "''index''"
      "Some ''es''" True "Activated ''fr''" NotActivated]
    prepare_action_language_scoped [of example_settings car_document "''kia''" "''index''"
      "Some ''es''" True "Activated ''fr''" NotActivated]
  show ?thesis
    using g e p by (simp add: to_language_examples)
qed

section \<open>Dispatch to the clusters: results\<close>

lemma pending_after_iterate: "pending (snd (iterate actions)) = None"
  by (cases actions) (simp_all add: pending_def)

lemma helpers_bulk_eq:
  "helpers_bulk cluster alias actions kwargs
     = ((case pending actions of Some e \<Rightarrow> Inl e
         | None \<Rightarrow> cluster alias (fst (fst (iterate actions))) kwargs),
        snd (iterate actions), (alias, fst (fst (iterate actions))))"
  by (cases actions) (simp_all add: helpers_bulk_def pending_def cong: option.case_cong)

lemma bulk_loop_trace:
  "bulk_loop d cluster kw keys actions calls = (r, a', calls') \<Longrightarrow>
   \<exists>new rest. calls' = calls @ new
     \<and> map (\<lambda>k. get_using d (Some k)) (filter (\<lambda>k. k \<noteq> ''default'') keys) = map fst new @ rest
     \<and> (\<forall>c\<in>set (butlast new). \<exists>v. cluster (fst c) (snd c) kw = Inr v)
     \<and> (r = None \<longrightarrow> rest = [] \<and> (\<forall>c\<in>set new. \<exists>v. cluster (fst c) (snd c) kw = Inr v)
                      \<and> (new = [] \<and> a' = actions \<or> pending a' = None))
     \<and> (\<forall>e. r = Some e \<longrightarrow> new \<noteq> []
            \<and> (cluster (fst (last new)) (snd (last new)) kw = Inl e \<or> pending actions = Some e))"
proof (induction keys arbitrary: actions calls)
  case Nil
  then show ?case by simp
next
  case (Cons k keys)
  show ?case
  proof (cases "k = ''default''")
    case True
    with Cons.prems have "bulk_loop d cluster kw keys actions calls = (r, a', calls')"
      by simp
    from Cons.IH [OF this] True show ?thesis by simp
  next
    case False
    define c where "c = (get_using d (Some k), fst (fst (iterate actions)))"
    define outcome where "outcome = (case pending actions of Some e \<Rightarrow> Inl e
         | None \<Rightarrow> cluster (get_using d (Some k)) (fst (fst (iterate actions))) kw)"
    have hb: "helpers_bulk cluster (get_using d (Some k)) actions kw
                = (outcome, snd (iterate actions), c)"
      by (simp add: helpers_bulk_eq c_def outcome_def)
    show ?thesis
    proof (cases outcome)
      case (Inl e)
      with Cons.prems False hb have r: "r = Some e" and cs: "calls' = calls @ [c]"
        by simp_all
      from Inl have "cluster (fst c) (snd c) kw = Inl e \<or> pending actions = Some e"
        by (auto simp add: outcome_def c_def split: option.splits)
      then have "calls' = calls @ [c]
        \<and> map (\<lambda>k. get_using d (Some k)) (filter (\<lambda>k. k \<noteq> ''default'') (k # keys))
            = map fst [c] @ map (\<lambda>k. get_using d (Some k)) (filter (\<lambda>k. k \<noteq> ''default'') keys)
        \<and> (\<forall>c\<in>set (butlast [c]). \<exists>v. cluster (fst c) (snd c) kw = Inr v)
        \<and> (r = None \<longrightarrow> map (\<lambda>k. get_using d (Some k)) (filter (\<lambda>k. k \<noteq> ''default'') keys) = []
               \<and> (\<forall>c\<in>set [c]. \<exists>v. cluster (fst c) (snd c) kw = Inr v)
               \<and> ([c] = [] \<and> a' = actions \<or> pending a' = None))
        \<and> (\<forall>e. r = Some e \<longrightarrow> [c] \<noteq> []
            \<and> (cluster (fst (last [c])) (snd (last [c])) kw = Inl e \<or> pending actions = Some e))"
        using False r cs by (simp add: c_def)
      then show ?thesis by blast
    next
      case (Inr v)
      then have pn: "pending actions = None" and cv: "cluster (fst c) (snd c) kw = Inr v"
        by (auto simp add: outcome_def c_def split: option.splits)
      from Cons.prems False hb Inr
      have "bulk_loop d cluster kw keys (snd (iterate actions)) (calls @ [c]) = (r, a', calls')"
        by simp
      from Cons.IH [OF this] obtain new rest where
        n1: "calls' = (calls @ [c]) @ new"
        and n2: "map (\<lambda>k. get_using d (Some k)) (filter (\<lambda>k. k \<noteq> ''default'') keys) = map fst new @ rest"
        and n3: "\<forall>c\<in>set (butlast new). \<exists>v. cluster (fst c) (snd c) kw = Inr v"
        and n4: "r = None \<longrightarrow> rest = [] \<and> (\<forall>c\<in>set new. \<exists>v. cluster (fst c) (snd c) kw = Inr v)
                      \<and> (new = [] \<and> a' = snd (iterate actions) \<or> pending a' = None)"
        and n5: "\<forall>e. r = Some e \<longrightarrow> new \<noteq> []
            \<and> (cluster (fst (last new)) (snd (last new)) kw = Inl e
                \<or> pending (snd (iterate actions)) = Some e)"
        by blast
      have m1: "calls' = calls @ (c # new)" using n1 by simp
      have m2: "map (\<lambda>k. get_using d (Some k)) (filter (\<lambda>k. k \<noteq> ''default'') (k # keys))
                  = map fst (c # new) @ rest"
        using False n2 by (simp add: c_def)
      have m3: "\<forall>x\<in>set (butlast (c # new)). \<exists>v. cluster (fst x) (snd x) kw = Inr v"
        using n3 cv by auto
      have m4: "r = None \<longrightarrow> rest = [] \<and> (\<forall>x\<in>set (c # new). \<exists>v. cluster (fst x) (snd x) kw = Inr v)
                      \<and> (c # new = [] \<and> a' = actions \<or> pending a' = None)"
        using n4 cv pending_after_iterate [of actions] by auto
      have m5: "\<forall>e. r = Some e \<longrightarrow> c # new \<noteq> []
            \<and> (cluster (fst (last (c # new))) (snd (last (c # new))) kw = Inl e
                \<or> pending actions = Some e)"
        using n5 pending_after_iterate [of actions] by auto
      from m1 m2 m3 m4 m5 show ?thesis by blast
    qed
  qed
qed

lemma save_loop_trace:
  "save_loop d cluster_save keys calls = (r, calls') \<Longrightarrow>
   \<exists>new rest. calls' = calls @ new
     \<and> map (\<lambda>k. get_using d (Some k)) (filter (\<lambda>k. k \<noteq> ''default'') keys) = new @ rest
     \<and> (\<forall>c\<in>set (butlast new). \<exists>v. cluster_save c = Inr v)
     \<and> (r = None \<longrightarrow> rest = [] \<and> (\<forall>c\<in>set new. \<exists>v. cluster_save c = Inr v))
     \<and> (\<forall>e. r = Some e \<longrightarrow> new \<noteq> [] \<and> cluster_save (last new) = Inl e)"
proof (induction keys arbitrary: calls)
  case Nil
  then show ?case by simp
next
  case (Cons k keys)
  show ?case
  proof (cases "k = ''default''")
    case True
    with Cons.prems have "save_loop d cluster_save keys calls = (r, calls')" by simp
    from Cons.IH [OF this] True show ?thesis by simp
  next
    case False
    define c where "c = get_using d (Some k)"
    show ?thesis
    proof (cases "cluster_save c")
      case (Inl e)
      with Cons.prems False have "r = Some e" and "calls' = calls @ [c]"
        by (simp_all add: c_def)
      with Inl False have "calls' = calls @ [c]
        \<and> map (\<lambda>k. get_using d (Some k)) (filter (\<lambda>k. k \<noteq> ''default'') (k # keys))
            = [c] @ map (\<lambda>k. get_using d (Some k)) (filter (\<lambda>k. k \<noteq> ''default'') keys)
        \<and> (\<forall>c\<in>set (butlast [c]). \<exists>v. cluster_save c = Inr v)
        \<and> (r = None \<longrightarrow> map (\<lambda>k. get_using d (Some k)) (filter (\<lambda>k. k \<noteq> ''default'') keys) = []
               \<and> (\<forall>c\<in>set [c]. \<exists>v. cluster_save c = Inr v))
        \<and> (\<forall>e. r = Some e \<longrightarrow> [c] \<noteq> [] \<and> cluster_save (last [c]) = Inl e)"
        by (simp add: c_def)
      then show ?thesis by blast
    next
      case (Inr v)
      with Cons.prems False
      have "save_loop d cluster_save keys (calls @ [c]) = (r, calls')"
        by (simp add: c_def)
      from Cons.IH [OF this] obtain new rest where
        n1: "calls' = (calls @ [c]) @ new"
        and n2: "map (\<lambda>k. get_using d (Some k)) (filter (\<lambda>k. k \<noteq> ''default'') keys) = new @ rest"
        and n3: "\<forall>c\<in>set (butlast new). \<exists>v. cluster_save c = Inr v"
        and n4: "r = None \<longrightarrow> rest = [] \<and> (\<forall>c\<in>set new. \<exists>v. cluster_save c = Inr v)"
        and n5: "\<forall>e. r = Some e \<longrightarrow> new \<noteq> [] \<and> cluster_save (last new) = Inl e"
        by blast
      have m1: "calls' = calls @ (c # new)" using n1 by simp
      have m2: "map (\<lambda>k. get_using d (Some k)) (filter (\<lambda>k. k \<noteq> ''default'') (k # keys))
                  = (c # new) @ rest"
        using False n2 by (simp add: c_def)
      have m3: "\<forall>x\<in>set (butlast (c # new)). \<exists>v. cluster_save x = Inr v"
        using n3 Inr by auto
      have m4: "r = None \<longrightarrow> rest = [] \<and> (\<forall>x\<in>set (c # new). \<exists>v. cluster_save x = Inr v)"
        using n4 Inr by auto
      have m5: "\<forall>e. r = Some e \<longrightarrow> c # new \<noteq> [] \<and> cluster_save (last (c # new)) = Inl e"
        using n5 by auto
      from m1 m2 m3 m4 m5 show ?thesis by blast
    qed
  qed
qed

lemma delete_loop_trace:
  "delete_loop d cluster_delete keys calls = (r, calls') \<Longrightarrow>
   \<exists>new rest. calls' = calls @ new
     \<and> map (\<lambda>k. get_using d (Some k)) keys = new @ rest
     \<and> (\<forall>c\<in>set (butlast new). \<exists>v. cluster_delete c = Inr v)
     \<and> (r = None \<longrightarrow> rest = [])
     \<and> (\<forall>e. r = Some e \<longrightarrow> new \<noteq> [] \<and> cluster_delete (last new) = Inl e)"
proof (induction keys arbitrary: calls)
  case Nil
  then show ?case by simp
next
  case (Cons k keys)
  define c where "c = get_using d (Some k)"
  show ?case
  proof (cases "cluster_delete c")
    case (Inl e)
    with Cons.prems have "r = Some e" and "calls' = calls @ [c]"
      by (simp_all add: c_def)
    with Inl have "calls' = calls @ [c]
      \<and> map (\<lambda>k. get_using d (Some k)) (k # keys) = [c] @ map (\<lambda>k. get_using d (Some k)) keys
      \<and> (\<forall>c\<in>set (butlast [c]). \<exists>v. cluster_delete c = Inr v)
      \<and> (r = None \<longrightarrow> map (\<lambda>k. get_using d (Some k)) keys = [])
      \<and> (\<forall>e. r = Some e \<longrightarrow> [c] \<noteq> [] \<and> cluster_delete (last [c]) = Inl e)"
      by (simp add: c_def)
    then show ?thesis by blast
  next
    case (Inr v)
    with Cons.prems have "delete_loop d cluster_delete keys (calls @ [c]) = (r, calls')"
      by (simp add: c_def)
    from Cons.IH [OF this] obtain new rest where
      n1: "calls' = (calls @ [c]) @ new"
      and n2: "map (\<lambda>k. get_using d (Some k)) keys = new @ rest"
      and n3: "\<forall>c\<in>set (butlast new). \<exists>v. cluster_delete c = Inr v"
      and n4: "r = None \<longrightarrow> rest = []"
      and n5: "\<forall>e. r = Some e \<longrightarrow> new \<noteq> [] \<and> cluster_delete (last new) = Inl e"
      by blast
    have m1: "calls' = calls @ (c # new)" using n1 by simp
    have m2: "map (\<lambda>k. get_using d (Some k)) (k # keys) = (c # new) @ rest"
      using n2 by (simp add: c_def)
    have m3: "\<forall>x\<in>set (butlast (c # new)). \<exists>v. cluster_delete x = Inr v"
      using n3 Inr by auto
    have m5: "\<forall>e. r = Some e \<longrightarrow> c # new \<noteq> [] \<and> cluster_delete (last (c # new)) = Inl e"
      using n5 by auto
    from m1 m2 m3 n4 m5 show ?thesis by blast
  qed
qed

lemma get_using_None: "get_using d None = index_using d"
  by (simp add: get_using_def)

lemma bulk_calls:
  "let (result, calls) = bulk st d cluster actions kwargs in
     calls \<noteq> []
   \<and> (\<exists>rest. dispatch_order st d = map fst calls @ rest)
   \<and> (\<forall>c\<in>set (butlast calls). \<exists>r. cluster (fst c) (snd c) kwargs = Inr r)
   \<and> (\<forall>r. result = Inr r \<longrightarrow>
          map fst calls = dispatch_order st d
        \<and> result = cluster (index_using d) (snd (last calls)) kwargs)
   \<and> (\<forall>e. result = Inl e \<longrightarrow>
          cluster (fst (last calls)) (snd (last calls)) kwargs = Inl e \<or> pending actions = Some e)"
proof -
  obtain r a' calls' where
    loop: "bulk_loop d cluster kwargs (ELASTICSEARCH_DSL st) actions [] = (r, a', calls')"
    by (metis prod_cases3)
  from bulk_loop_trace [OF loop] obtain rest where
    t2: "map (\<lambda>k. get_using d (Some k)) (filter (\<lambda>k. k \<noteq> ''default'') (ELASTICSEARCH_DSL st))
           = map fst calls' @ rest"
    and t3: "\<forall>c\<in>set (butlast calls'). \<exists>v. cluster (fst c) (snd c) kwargs = Inr v"
    and t4: "r = None \<longrightarrow> rest = [] \<and> (\<forall>c\<in>set calls'. \<exists>v. cluster (fst c) (snd c) kwargs = Inr v)
                      \<and> (calls' = [] \<and> a' = actions \<or> pending a' = None)"
    and t5: "\<forall>e. r = Some e \<longrightarrow> calls' \<noteq> []
            \<and> (cluster (fst (last calls')) (snd (last calls')) kwargs = Inl e
                \<or> pending actions = Some e)"
    by auto
  show ?thesis
  proof (cases r)
    case (Some e)
    then have b: "bulk st d cluster actions kwargs = (Inl e, calls')"
      by (simp add: bulk_def loop)
    have "dispatch_order st d = map fst calls' @ (rest @ [get_using d None])"
      by (simp add: dispatch_order_def t2)
    then have "\<exists>rest. dispatch_order st d = map fst calls' @ rest" by blast
    with t3 t5 Some show ?thesis
      unfolding b Let_def prod.case by simp
  next
    case None
    define items where "items = fst (fst (iterate a'))"
    define outcome where "outcome = (case pending a' of Some e \<Rightarrow> Inl e
         | None \<Rightarrow> cluster (get_using d None) items kwargs)"
    have b: "bulk st d cluster actions kwargs = (outcome, calls' @ [(get_using d None, items)])"
      by (simp add: bulk_def loop None helpers_bulk_eq outcome_def items_def cong: option.case_cong)
    from t4 None have rest: "rest = []"
      and ok: "\<forall>c\<in>set calls'. \<exists>v. cluster (fst c) (snd c) kwargs = Inr v"
      and st: "calls' = [] \<and> a' = actions \<or> pending a' = None"
      by simp_all
    have o: "dispatch_order st d = map fst (calls' @ [(get_using d None, items)])"
      by (simp add: dispatch_order_def t2 rest)
    have r1: "\<forall>r. outcome = Inr r \<longrightarrow> outcome = cluster (index_using d) items kwargs"
      by (auto simp add: outcome_def get_using_None split: option.splits)
    have r2: "\<forall>e. outcome = Inl e \<longrightarrow>
                cluster (get_using d None) items kwargs = Inl e \<or> pending actions = Some e"
      using st by (auto simp add: outcome_def split: option.splits)
    from o ok r1 r2 show ?thesis
      unfolding b Let_def prod.case by simp
  qed
qed

lemma save_calls:
  "let (result, calls) = save st d cluster_save in
     calls \<noteq> []
   \<and> (\<exists>rest. dispatch_order st d = calls @ rest)
   \<and> (\<forall>c\<in>set (butlast calls). \<exists>r. cluster_save c = Inr r)
   \<and> result = cluster_save (last calls)
   \<and> ((\<exists>r. result = Inr r) \<longrightarrow> calls = dispatch_order st d)"
proof -
  obtain r calls' where
    loop: "save_loop d cluster_save (ELASTICSEARCH_DSL st) [] = (r, calls')"
    by (cases "save_loop d cluster_save (ELASTICSEARCH_DSL st) []")
  from save_loop_trace [OF loop] obtain rest where
    t2: "map (\<lambda>k. get_using d (Some k)) (filter (\<lambda>k. k \<noteq> ''default'') (ELASTICSEARCH_DSL st))
           = calls' @ rest"
    and t3: "\<forall>c\<in>set (butlast calls'). \<exists>v. cluster_save c = Inr v"
    and t4: "r = None \<longrightarrow> rest = [] \<and> (\<forall>c\<in>set calls'. \<exists>v. cluster_save c = Inr v)"
    and t5: "\<forall>e. r = Some e \<longrightarrow> calls' \<noteq> [] \<and> cluster_save (last calls') = Inl e"
    by auto
  show ?thesis
  proof (cases r)
    case (Some e)
    then have b: "save st d cluster_save = (Inl e, calls')"
      by (simp add: save_def loop)
    have "dispatch_order st d = calls' @ (rest @ [get_using d None])"
      by (simp add: dispatch_order_def t2)
    then have "\<exists>rest. dispatch_order st d = calls' @ rest" by blast
    with t3 t5 Some show ?thesis
      unfolding b Let_def prod.case by simp
  next
    case None
    then have b: "save st d cluster_save
                    = (cluster_save (get_using d None), calls' @ [get_using d None])"
      by (simp add: save_def loop)
    from t4 None have rest: "rest = []"
      and ok: "\<forall>c\<in>set calls'. \<exists>v. cluster_save c = Inr v"
      by simp_all
    have "dispatch_order st d = calls' @ [get_using d None]"
      by (simp add: dispatch_order_def t2 rest)
    with ok show ?thesis
      unfolding b Let_def prod.case by simp
  qed
qed

lemma delete_calls:
  "let (result, calls) = delete st d cluster_delete in
     (\<exists>rest. map (\<lambda>k. get_using d (Some k)) (ELASTICSEARCH_DSL st) = calls @ rest)
   \<and> (\<forall>c\<in>set (butlast calls). \<exists>r. cluster_delete c = Inr r)
   \<and> (result = Inr () \<longrightarrow> calls = map (\<lambda>k. get_using d (Some k)) (ELASTICSEARCH_DSL st))
   \<and> (\<forall>e. result = Inl e \<longrightarrow> calls \<noteq> [] \<and> cluster_delete (last calls) = Inl e)"
proof -
  obtain r calls' where
    loop: "delete_loop d cluster_delete (ELASTICSEARCH_DSL st) [] = (r, calls')"
    by (cases "delete_loop d cluster_delete (ELASTICSEARCH_DSL st) []")
  from delete_loop_trace [OF loop] obtain rest where
    t2: "map (\<lambda>k. get_using d (Some k)) (ELASTICSEARCH_DSL st) = calls' @ rest"
    and t3: "\<forall>c\<in>set (butlast calls'). \<exists>v. cluster_delete c = Inr v"
    and t4: "r = None \<longrightarrow> rest = []"
    and t5: "\<forall>e. r = Some e \<longrightarrow> calls' \<noteq> [] \<and> cluster_delete (last calls') = Inl e"
    by auto
  show ?thesis
  proof (cases r)
    case (Some e)
    then have b: "delete st d cluster_delete = (Inl e, calls')"
      by (simp add: delete_def loop)
    from t2 have "\<exists>rest. map (\<lambda>k. get_using d (Some k)) (ELASTICSEARCH_DSL st) = calls' @ rest"
      by blast
    with t3 t5 Some show ?thesis
      unfolding b Let_def prod.case by simp
  next
    case None
    then have b: "delete st d cluster_delete = (Inr (), calls')"
      by (simp add: delete_def loop)
    from t4 None t2 have "map (\<lambda>k. get_using d (Some k)) (ELASTICSEARCH_DSL st) = calls'"
      by simp
    with t3 show ?thesis
      unfolding b Let_def prod.case by simp
  qed
qed

lemma dispatch_order_default:
  assumes "distinct (ELASTICSEARCH_DSL st)" and "''default'' \<in> set (ELASTICSEARCH_DSL st)"
      and "[] \<notin> set (ELASTICSEARCH_DSL st)" and "index_using d = ''default''"
  shows "dispatch_order st d
           = filter (\<lambda>k. k \<noteq> ''default'') (ELASTICSEARCH_DSL st) @ [''default'']"
    and "distinct (dispatch_order st d)"
    and "set (dispatch_order st d) = set (ELASTICSEARCH_DSL st)"
    and "map (\<lambda>k. get_using d (Some k)) (ELASTICSEARCH_DSL st) = ELASTICSEARCH_DSL st"
proof -
  have r: "get_using d (Some k) = k" if "k \<in> set (ELASTICSEARCH_DSL st)" for k
    using that assms(3) by (auto simp add: get_using_def)
  have m: "map (\<lambda>k. get_using d (Some k)) (filter (\<lambda>k. k \<noteq> ''default'') (ELASTICSEARCH_DSL st))
             = filter (\<lambda>k. k \<noteq> ''default'') (ELASTICSEARCH_DSL st)"
    by (rule map_idI) (simp add: r)
  show o: "dispatch_order st d
           = filter (\<lambda>k. k \<noteq> ''default'') (ELASTICSEARCH_DSL st) @ [''default'']"
    by (simp add: dispatch_order_def m get_using_None assms(4))
  show "distinct (dispatch_order st d)"
    unfolding o using assms(1) by simp
  show "set (dispatch_order st d) = set (ELASTICSEARCH_DSL st)"
    unfolding o using assms(2) by auto
  show "map (\<lambda>k. get_using d (Some k)) (ELASTICSEARCH_DSL st) = ELASTICSEARCH_DSL st"
    by (rule map_idI) (simp add: r)
qed

text \<open>
  C1, as the code has it. \<open>bulk\<close> and \<open>save\<close> call the clusters of the map other
  than \<open>default\<close>, in the order of the map, and then the cluster the document's index
  is bound to. They stop at the first call that raises, and its exception is theirs: the
  calls made are an initial part of that sequence, every call before the last returned,
  and the outcome of the last call is the outcome of the operation. When they return a
  result, all these calls were made and the result is that of the call on the document's
  own connection. \<open>delete\<close> calls the clusters of the map in the order of the map,
  \<open>default\<close> at its own place, stops at the first call that raises, and returns
  \<open>None\<close>. An empty alias stands for the document's own connection. So for a cluster
  map with distinct non-empty names, \<open>default\<close> among them, and a document bound to
  \<open>default\<close>, the sequence of \<open>bulk\<close> and \<open>save\<close> holds every configured
  cluster exactly once with \<open>default\<close> last.
\<close>

theorem dispatch_every_cluster_once:
  "(let (result, calls) = bulk st d cluster actions kwargs in
      calls \<noteq> []
    \<and> (\<exists>rest. dispatch_order st d = map fst calls @ rest)
    \<and> (\<forall>c\<in>set (butlast calls). \<exists>r. cluster (fst c) (snd c) kwargs = Inr r)
    \<and> (\<forall>r. result = Inr r \<longrightarrow>
           map fst calls = dispatch_order st d
         \<and> result = cluster (index_using d) (snd (last calls)) kwargs)
    \<and> (\<forall>e. result = Inl e \<longrightarrow>
           cluster (fst (last calls)) (snd (last calls)) kwargs = Inl e
         \<or> pending actions = Some e))
   \<and> (let (result, calls) = save st d cluster_save in
      calls \<noteq> []
    \<and> (\<exists>rest. dispatch_order st d = calls @ rest)
    \<and> (\<forall>c\<in>set (butlast calls). \<exists>r. cluster_save c = Inr r)
    \<and> result = cluster_save (last calls)
    \<and> ((\<exists>r. result = Inr r) \<longrightarrow> calls = dispatch_order st d))
   \<and> (let (result, calls) = delete st d cluster_delete in
      (\<exists>rest. map (\<lambda>k. get_using d (Some k)) (ELASTICSEARCH_DSL st) = calls @ rest)
    \<and> (\<forall>c\<in>set (butlast calls). \<exists>r. cluster_delete c = Inr r)
    \<and> (result = Inr () \<longrightarrow> calls = map (\<lambda>k. get_using d (Some k)) (ELASTICSEARCH_DSL st))
    \<and> (\<forall>e. result = Inl e \<longrightarrow> calls \<noteq> [] \<and> cluster_delete (last calls) = Inl e))
   \<and> (distinct (ELASTICSEARCH_DSL st) \<and> ''default'' \<in> set (ELASTICSEARCH_DSL st)
        \<and> [] \<notin> set (ELASTICSEARCH_DSL st) \<and> index_using d = ''default'' \<longrightarrow>
        dispatch_order st d
          = filter (\<lambda>k. k \<noteq> ''default'') (ELASTICSEARCH_DSL st) @ [''default'']
      \<and> distinct (dispatch_order st d)
      \<and> set (dispatch_order st d) = set (ELASTICSEARCH_DSL st)
      \<and> map (\<lambda>k. get_using d (Some k)) (ELASTICSEARCH_DSL st) = ELASTICSEARCH_DSL st)"
  using bulk_calls [of st d cluster actions kwargs] save_calls [of st d cluster_save]
    delete_calls [of st d cluster_delete] dispatch_order_default [of st d]
  by blast

text \<open>
  The claim as stated fails in four ways. \<open>delete\<close> on the cluster map
  \<open>default\<close>, \<open>replica\<close> calls \<open>default\<close> first. \<open>bulk\<close> with a replica that
  raises never calls \<open>default\<close>. \<open>bulk\<close> for a document whose index is bound to
  \<open>replica\<close> calls \<open>replica\<close> twice and \<open>default\<close> never. \<open>bulk\<close> with an
  empty alias in the cluster map calls \<open>default\<close> twice.
\<close>

theorem dispatch_not_every_cluster_once:
  "snd (delete example_settings car_document (\<lambda>alias. Inr ())) = [''default'', ''replica'']
   \<and> bulk plain_settings car_document replica_down (ActionList [''a1'', ''a2'']) Map.empty
       = (Inl (OtherError ''replica is down''), [(''replica'', [''a1'', ''a2''])])
   \<and> bulk plain_settings (car_document\<lparr>index_using := ''replica''\<rparr>) count_cluster
         (ActionList [''a1'', ''a2'']) Map.empty
       = (Inr 2, [(''replica'', [''a1'', ''a2'']), (''replica'', [''a1'', ''a2''])])
   \<and> bulk (plain_settings\<lparr>ELASTICSEARCH_DSL := [[], ''default'']\<rparr>) car_document count_cluster
         (ActionList [''a1'', ''a2'']) Map.empty
       = (Inr 2, [(''default'', [''a1'', ''a2'']), (''default'', [''a1'', ''a2''])])"
  by (simp add: delete_def bulk_def helpers_bulk_def get_using_def example_settings_def
      plain_settings_def car_document_def replica_down_def count_cluster_def)

theorem dispatch_every_cluster_once_witness:
  "distinct (ELASTICSEARCH_DSL example_settings)
   \<and> ''default'' \<in> set (ELASTICSEARCH_DSL example_settings)
   \<and> [] \<notin> set (ELASTICSEARCH_DSL example_settings)
   \<and> index_using car_document = ''default''
   \<and> dispatch_order example_settings car_document = [''replica'', ''default'']
   \<and> bulk example_settings car_document count_cluster (ActionList [''a1'', ''a2'']) Map.empty
       = (Inr 2, [(''replica'', [''a1'', ''a2'']), (''default'', [''a1'', ''a2''])])
   \<and> save example_settings car_document (\<lambda>alias. Inr (''saved on '' @ alias))
       = (Inr ''saved on default'', [''replica'', ''default''])
   \<and> delete example_settings car_document (\<lambda>alias. Inr (''deleted on '' @ alias))
       = (Inr (), [''default'', ''replica''])
   \<and> bulk example_settings car_document replica_down (ActionList [''a1'', ''a2'']) Map.empty
       = (Inl (OtherError ''replica is down''), [(''replica'', [''a1'', ''a2''])])"
  using dispatch_every_cluster_once [where st = example_settings and d = car_document
      and cluster = count_cluster and actions = "ActionList [''a1'', ''a2'']"
      and kwargs = Map.empty
      and cluster_save = "\<lambda>alias. Inr (''saved on '' @ alias)"
      and cluster_delete = "\<lambda>alias. Inr (''deleted on '' @ alias)"]
    dispatch_every_cluster_once [where st = example_settings and d = car_document
      and cluster = replica_down and actions = "ActionList [''a1'', ''a2'']"
      and kwargs = Map.empty
      and cluster_save = "\<lambda>alias. Inr (''saved on '' @ alias)"
      and cluster_delete = "\<lambda>alias. Inr (''deleted on '' @ alias)"]
  by (simp add: example_settings_def count_cluster_def replica_down_def bulk_def save_def
      delete_def helpers_bulk_def get_using_def car_document_def dispatch_order_def)

lemma helpers_bulk_exhausted:
  "helpers_bulk cluster alias (ActionGenerator [] None) kwargs
     = (cluster alias [] kwargs, ActionGenerator [] None, (alias, []))"
  by (simp add: helpers_bulk_def)

lemma bulk_loop_exhausted:
  fixes calls :: "'a call list"
  shows "bulk_loop d cluster kwargs keys (ActionGenerator [] None) calls = (r, a', calls') \<Longrightarrow>
   \<exists>mid rest. calls' = calls @ mid
     \<and> map (\<lambda>k. (get_using d (Some k), [])) (filter (\<lambda>k. k \<noteq> ''default'') keys) = mid @ rest
     \<and> (r = None \<longrightarrow> rest = [] \<and> a' = ActionGenerator [] None)"
proof (induction keys arbitrary: calls)
  case Nil
  then show ?case by simp
next
  case (Cons k keys)
  show ?case
  proof (cases "k = ''default''")
    case True
    with Cons.prems
    have "bulk_loop d cluster kwargs keys (ActionGenerator [] None) calls = (r, a', calls')"
      by simp
    from Cons.IH [OF this] True show ?thesis by simp
  next
    case False
    define c where "c = (get_using d (Some k), [] :: 'a list)"
    show ?thesis
    proof (cases "cluster (get_using d (Some k)) [] kwargs")
      case (Inl e)
      with Cons.prems False have "calls' = calls @ [c]" and "r = Some e"
        by (simp_all add: helpers_bulk_exhausted c_def)
      with False show ?thesis by (simp add: c_def)
    next
      case (Inr v)
      with Cons.prems False
      have "bulk_loop d cluster kwargs keys (ActionGenerator [] None) (calls @ [c])
              = (r, a', calls')"
        by (simp add: helpers_bulk_exhausted c_def)
      from Cons.IH [OF this] obtain mid rest where
        "calls' = (calls @ [c]) @ mid"
        "map (\<lambda>k. (get_using d (Some k), [])) (filter (\<lambda>k. k \<noteq> ''default'') keys) = mid @ rest"
        "r = None \<longrightarrow> rest = [] \<and> a' = ActionGenerator [] None"
        by blast
      then have "calls' = calls @ (c # mid)
        \<and> map (\<lambda>k. (get_using d (Some k), [])) (filter (\<lambda>k. k \<noteq> ''default'') (k # keys))
            = (c # mid) @ rest
        \<and> (r = None \<longrightarrow> rest = [] \<and> a' = ActionGenerator [] None)"
        using False by (simp add: c_def)
      then show ?thesis by blast
    qed
  qed
qed

lemma bulk_loop_generator:
  "bulk_loop d cluster kwargs keys (ActionGenerator xs e) calls = (r, a', calls') \<Longrightarrow>
   filter (\<lambda>k. k \<noteq> ''default'') keys \<noteq> [] \<Longrightarrow>
   \<exists>mid rest.
       calls' = calls @ (get_using d (Some (hd (filter (\<lambda>k. k \<noteq> ''default'') keys))), xs) # mid
     \<and> map (\<lambda>k. (get_using d (Some k), [])) (tl (filter (\<lambda>k. k \<noteq> ''default'') keys)) = mid @ rest
     \<and> (r = None \<longrightarrow> rest = [] \<and> a' = ActionGenerator [] None)"
proof (induction keys arbitrary: calls)
  case Nil
  then show ?case by simp
next
  case (Cons k keys)
  show ?case
  proof (cases "k = ''default''")
    case True
    with Cons.prems
    have "bulk_loop d cluster kwargs keys (ActionGenerator xs e) calls = (r, a', calls')"
      and "filter (\<lambda>k. k \<noteq> ''default'') keys \<noteq> []"
      by simp_all
    from Cons.IH [OF this] True show ?thesis by simp
  next
    case False
    define c where "c = (get_using d (Some k), xs)"
    have hb: "helpers_bulk cluster (get_using d (Some k)) (ActionGenerator xs e) kwargs
                = ((case e of Some x \<Rightarrow> Inl x | None \<Rightarrow> cluster (get_using d (Some k)) xs kwargs),
                   ActionGenerator [] None, c)"
      by (simp add: helpers_bulk_def c_def)
    show ?thesis
    proof (cases "case e of Some x \<Rightarrow> Inl x | None \<Rightarrow> cluster (get_using d (Some k)) xs kwargs")
      case (Inl x)
      with Cons.prems False have "calls' = calls @ [c]" and "r = Some x"
        by (simp_all add: hb)
      with False show ?thesis by (simp add: c_def)
    next
      case (Inr v)
      with Cons.prems False
      have "bulk_loop d cluster kwargs keys (ActionGenerator [] None) (calls @ [c])
              = (r, a', calls')"
        by (simp add: hb)
      from bulk_loop_exhausted [OF this] obtain mid rest where
        "calls' = (calls @ [c]) @ mid"
        "map (\<lambda>k. (get_using d (Some k), [])) (filter (\<lambda>k. k \<noteq> ''default'') keys) = mid @ rest"
        "r = None \<longrightarrow> rest = [] \<and> a' = ActionGenerator [] None"
        by blast
      then have
        "calls' = calls @ (get_using d (Some (hd (filter (\<lambda>k. k \<noteq> ''default'') (k # keys)))), xs) # mid
        \<and> map (\<lambda>k. (get_using d (Some k), [])) (tl (filter (\<lambda>k. k \<noteq> ''default'') (k # keys)))
            = mid @ rest
        \<and> (r = None \<longrightarrow> rest = [] \<and> a' = ActionGenerator [] None)"
        using False by (simp add: c_def)
      then show ?thesis by blast
    qed
  qed
qed

text \<open>
  C10, as the code has it. \<open>bulk\<close> hands the same \<open>actions\<close> object to every
  call. When it is a generator and the cluster map has a name other than \<open>default\<close>,
  the first call, on the first such cluster, has everything the generator yields; the
  calls made are an initial part of the sequence in which every later cluster, and at the
  end the cluster the document's index is bound to, has no action; and when \<open>bulk\<close>
  returns a result, all these calls were made and the result is the answer of the
  document's own cluster, \<open>default\<close> unless the index is bound to another, to an empty
  list of actions.
\<close>

theorem bulk_generator_read_by_first_cluster:
  assumes "filter (\<lambda>k. k \<noteq> ''default'') (ELASTICSEARCH_DSL st) \<noteq> []"
  shows "let others = filter (\<lambda>k. k \<noteq> ''default'') (ELASTICSEARCH_DSL st);
             (result, calls) = bulk st d cluster (ActionGenerator xs e) kwargs
         in hd calls = (get_using d (Some (hd others)), xs)
          \<and> (\<exists>rest. (get_using d (Some (hd others)), xs)
                        # map (\<lambda>k. (get_using d (Some k), [])) (tl others)
                        @ [(index_using d, [])]
                       = calls @ rest)
          \<and> (\<forall>r. result = Inr r \<longrightarrow>
                 calls = (get_using d (Some (hd others)), xs)
                           # map (\<lambda>k. (get_using d (Some k), [])) (tl others)
                           @ [(index_using d, [])]
               \<and> result = cluster (index_using d) [] kwargs)"
proof -
  define others where "others = filter (\<lambda>k. k \<noteq> ''default'') (ELASTICSEARCH_DSL st)"
  define first where "first = (get_using d (Some (hd others)), xs)"
  obtain r a' calls' where
    loop: "bulk_loop d cluster kwargs (ELASTICSEARCH_DSL st) (ActionGenerator xs e) []
             = (r, a', calls')"
    by (metis prod_cases3)
  from bulk_loop_generator [OF loop assms] obtain mid rest where
    c: "calls' = first # mid"
    and m: "map (\<lambda>k. (get_using d (Some k), [])) (tl others) = mid @ rest"
    and ok: "r = None \<longrightarrow> rest = [] \<and> a' = ActionGenerator [] None"
    unfolding others_def first_def by auto
  show ?thesis
  proof (cases r)
    case (Some x)
    then have b: "bulk st d cluster (ActionGenerator xs e) kwargs = (Inl x, first # mid)"
      by (simp add: bulk_def loop c)
    have "first # map (\<lambda>k. (get_using d (Some k), [])) (tl others) @ [(index_using d, [])]
            = (first # mid) @ (rest @ [(index_using d, [])])"
      using m by simp
    then show ?thesis
      unfolding Let_def others_def [symmetric] first_def [symmetric] b prod.case by auto
  next
    case None
    with ok have rest: "rest = []" and a': "a' = ActionGenerator [] None" by simp_all
    have b: "bulk st d cluster (ActionGenerator xs e) kwargs
               = (cluster (index_using d) [] kwargs, first # mid @ [(index_using d, [])])"
      by (simp add: bulk_def loop c None a' helpers_bulk_exhausted get_using_None)
    have "first # map (\<lambda>k. (get_using d (Some k), [])) (tl others) @ [(index_using d, [])]
            = first # mid @ [(index_using d, [])]"
      using m rest by simp
    then show ?thesis
      unfolding Let_def others_def [symmetric] first_def [symmetric] b prod.case by auto
  qed
qed

text \<open>
  The claim as stated fails for a document whose index is bound to \<open>replica\<close>: the
  cluster \<open>default\<close> is not called, and the result is the replica's answer to the
  exhausted generator.
\<close>

theorem bulk_generator_default_not_called:
  "bulk plain_settings (car_document\<lparr>index_using := ''replica''\<rparr>) count_cluster
     (ActionGenerator [''a1'', ''a2''] None) Map.empty
     = (Inr 0, [(''replica'', [''a1'', ''a2'']), (''replica'', [])])"
  by (simp add: bulk_def helpers_bulk_def get_using_def plain_settings_def car_document_def
      count_cluster_def)

theorem bulk_generator_read_by_first_cluster_witness:
  "filter (\<lambda>k. k \<noteq> ''default'') (ELASTICSEARCH_DSL plain_settings) \<noteq> []
   \<and> bulk plain_settings car_document count_cluster (ActionGenerator [''a1'', ''a2''] None)
         Map.empty
       = (Inr 0, [(''replica'', [''a1'', ''a2'']), (''default'', [])])"
  using bulk_generator_read_by_first_cluster [where st = plain_settings and d = car_document
      and cluster = count_cluster and xs = "[''a1'', ''a2'']" and e = None and kwargs = Map.empty]
  by (simp add: plain_settings_def count_cluster_def bulk_def helpers_bulk_def get_using_def
      car_document_def)

section \<open>From hits to a queryset: results\<close>

lemma set_first_occurrences: "set (first_occurrences xs) = set xs"
  by (induction xs) auto

lemma distinct_first_occurrences: "distinct (first_occurrences xs)"
  by (induction xs) simp_all

lemma first_occurrences_distinct: "distinct xs \<Longrightarrow> first_occurrences xs = xs"
proof (induction xs)
  case Nil
  show ?case by simp
next
  case (Cons x xs)
  then have "x \<notin> set xs" and "first_occurrences xs = xs" by simp_all
  then show ?case by (simp add: filter_id_conv) blast
qed

lemma case_value_in:
  "k \<in> set ids \<Longrightarrow>
   \<exists>i. case_value (map (\<lambda>(pos, p). When p pos) (List.enumerate n ids)) k = Some i \<and> n \<le> i"
proof (induction ids arbitrary: n)
  case Nil
  then show ?case by simp
next
  case (Cons a ids)
  show ?case
  proof (cases "k = a")
    case True
    then show ?thesis by simp
  next
    case False
    with Cons.prems have "k \<in> set ids" by simp
    from Cons.IH [OF this, of "Suc n"] False show ?thesis by auto
  qed
qed

lemma case_value_strict:
  "sorted_wrt (\<lambda>a b. case_value (map (\<lambda>(pos, p). When p pos) (List.enumerate n ids)) a
                     < case_value (map (\<lambda>(pos, p). When p pos) (List.enumerate n ids)) b)
     (first_occurrences ids)"
proof (induction ids arbitrary: n)
  case Nil
  show ?case by simp
next
  case (Cons x ids)
  let ?k1 = "case_value (map (\<lambda>(pos, p). When p pos) (List.enumerate (Suc n) ids))"
  let ?k = "case_value (map (\<lambda>(pos, p). When p pos) (List.enumerate n (x # ids)))"
  let ?ys = "filter (\<lambda>y. y \<noteq> x) (first_occurrences ids)"
  have kx: "?k x = Some n" by simp
  have ky: "?k y = ?k1 y" if "y \<noteq> x" for y using that by simp
  have first: "?k x < ?k y" if "y \<in> set ?ys" for y
  proof -
    from that have "y \<noteq> x" and "y \<in> set ids" by (simp_all add: set_first_occurrences)
    from case_value_in [OF this(2), of "Suc n"] obtain i where "?k1 y = Some i" and "Suc n \<le> i"
      by blast
    with \<open>y \<noteq> x\<close> show ?thesis by (simp add: kx ky)
  qed
  have "sorted_wrt (\<lambda>a b. ?k1 a < ?k1 b) ?ys"
    using Cons.IH [of "Suc n"] by (rule sorted_wrt_filter)
  then have "sorted_wrt (\<lambda>a b. ?k a < ?k b) ?ys"
  proof (rule sorted_wrt_mono_rel [rotated])
    fix a b assume "a \<in> set ?ys" "b \<in> set ?ys" "?k1 a < ?k1 b"
    then show "?k a < ?k b" by (simp add: ky)
  qed
  with first show ?case by simp
qed

lemma case_value_inj:
  "inj_on (case_value (map (\<lambda>(pos, p). When p pos) (List.enumerate 0 ids))) (set ids)"
proof -
  let ?key = "case_value (map (\<lambda>(pos, p). When p pos) (List.enumerate 0 ids))"
  have "sorted_wrt (<) (map ?key (first_occurrences ids))"
    unfolding sorted_wrt_map by (rule case_value_strict)
  then have "distinct (map ?key (first_occurrences ids))"
    by (simp add: strict_sorted_iff)
  then show ?thesis
    by (simp add: distinct_map set_first_occurrences)
qed

lemma rows_in_hit_order:
  assumes "distinct (map pk_of table)"
  shows "map pk_of (sort_key (\<lambda>r. case_value (map (\<lambda>(pos, p). When p pos) (List.enumerate 0 ids)) (pk_of r))
                      (filter (\<lambda>r. pk_of r \<in> set ids) table))
         = filter (\<lambda>i. i \<in> pk_of ` set table) (first_occurrences ids)"
    (is "map pk_of ?L = ?R")
proof -
  let ?key = "case_value (map (\<lambda>(pos, p). When p pos) (List.enumerate 0 ids))"
  let ?M = "filter (\<lambda>r. pk_of r \<in> set ids) table"
  from assms have dt: "distinct table" and inj: "inj_on pk_of (set table)"
    by (simp_all add: distinct_map)
  have dL: "distinct (map pk_of ?L)"
    unfolding distinct_map using dt inj by (auto intro: inj_on_subset)
  have subL: "set (map pk_of ?L) \<subseteq> set ids" by auto
  have subR: "set ?R \<subseteq> set ids" by (auto simp add: set_first_occurrences)
  have sets: "set (map pk_of ?L) = set ?R" by (auto simp add: set_first_occurrences)
  have s1: "sorted (map ?key (map pk_of ?L))"
    using sorted_sort_key [of "\<lambda>r. ?key (pk_of r)" ?M] by (simp add: comp_def)
  have d1: "distinct (map ?key (map pk_of ?L))"
    unfolding distinct_map [of ?key]
    using dL case_value_inj [of ids] subL by (blast intro: inj_on_subset)
  have "sorted_wrt (\<lambda>a b. ?key a < ?key b) ?R"
    using case_value_strict [of 0 ids] by (rule sorted_wrt_filter)
  then have "sorted_wrt (<) (map ?key ?R)"
    by (simp add: sorted_wrt_map)
  then have s2: "sorted (map ?key ?R)" and d2: "distinct (map ?key ?R)"
    by (simp_all add: strict_sorted_iff)
  have "inj_on ?key (set (map pk_of ?L) \<union> set ?R)"
    using case_value_inj [of ids] subL subR by (blast intro: inj_on_subset)
  from map_sorted_distinct_set_unique [OF this s1 d1 s2 d2 sets] show ?thesis .
qed

text \<open>
  C4. A search with no cached response is re-issued as a clone of itself (same query,
  same model) whose source filter excludes every field, and that clone is what is
  executed; a search with a cached response executes nothing. Whenever the hits are
  obtained, \<open>to_queryset(keep_order=True)\<close> is the queryset on the bound model
  filtered to the hit identifiers and ordered by one \<open>CASE\<close> expression that maps
  each identifier to its position. On a table with distinct primary keys the rows it
  returns are, in order, the hit identifiers that have a row, each at the place of its
  first occurrence among the hits: the row order is the order of the hits, whatever the
  order of the table. Hit identifiers that are distinct are their own first occurrences.
\<close>

theorem to_queryset_identifiers_in_hit_order:
  "(response self = None \<longrightarrow>
      snd (to_queryset execute self keep_order) = [search_source self ''excludes'' [''*'']]
    \<and> (\<exists>m. source (search_source self ''excludes'' [''*'']) = SourceDict m
           \<and> m ''excludes'' = Some [''*''])
    \<and> model (search_source self ''excludes'' [''*'']) = model self
    \<and> query (search_source self ''excludes'' [''*'']) = query self)
   \<and> (\<forall>r. response self = Some r \<longrightarrow> snd (to_queryset execute self keep_order) = [])
   \<and> (\<forall>ids. (case response self of
                Some r \<Rightarrow> Inr r
              | None \<Rightarrow> execute (search_source self ''excludes'' [''*''])) = Inr ids \<longrightarrow>
          (\<exists>qs. fst (to_queryset execute self True) = Inr qs
             \<and> queryset_model qs = model self
             \<and> pk_in qs = ids
             \<and> order_by qs = Some (Case (map (\<lambda>(pos, p). When p pos) (List.enumerate 0 ids)))
             \<and> (distinct (map pk_of table) \<longrightarrow>
                  map pk_of (rows pk_of table qs)
                    = filter (\<lambda>i. i \<in> pk_of ` set table) (first_occurrences ids))
             \<and> (distinct ids \<longrightarrow> first_occurrences ids = ids)))"
proof (intro conjI allI impI)
  assume "response self = None"
  then show "snd (to_queryset execute self keep_order) = [search_source self ''excludes'' [''*'']]"
    by (cases "execute (search_source self ''excludes'' [''*''])")
       (simp_all add: to_queryset_def Let_def)
next
  show "\<exists>m. source (search_source self ''excludes'' [''*'']) = SourceDict m
           \<and> m ''excludes'' = Some [''*'']"
    by (simp add: search_source_def Let_def)
next
  show "model (search_source self ''excludes'' [''*'']) = model self"
    by (simp add: search_source_def clone_def Let_def)
next
  show "query (search_source self ''excludes'' [''*'']) = query self"
    by (simp add: search_source_def clone_def Let_def)
next
  fix r assume "response self = Some r"
  then show "snd (to_queryset execute self keep_order) = []"
    by (simp add: to_queryset_def Let_def)
next
  fix ids
  assume h: "(case response self of
                Some r \<Rightarrow> Inr r
              | None \<Rightarrow> execute (search_source self ''excludes'' [''*''])) = Inr ids"
  let ?qs = "\<lparr>queryset_model = model self, pk_in = ids,
              order_by = Some (Case (map (\<lambda>(pos, p). When p pos) (List.enumerate 0 ids)))\<rparr>"
  from h have q: "fst (to_queryset execute self True) = Inr ?qs"
    by (cases "response self") (simp_all add: to_queryset_def Let_def)
  have "distinct (map pk_of table) \<longrightarrow>
          map pk_of (rows pk_of table ?qs)
            = filter (\<lambda>i. i \<in> pk_of ` set table) (first_occurrences ids)"
    by (simp add: rows_def rows_in_hit_order)
  moreover have "distinct ids \<longrightarrow> first_occurrences ids = ids"
    by (simp add: first_occurrences_distinct)
  ultimately show "\<exists>qs. fst (to_queryset execute self True) = Inr qs
             \<and> queryset_model qs = model self
             \<and> pk_in qs = ids
             \<and> order_by qs = Some (Case (map (\<lambda>(pos, p). When p pos) (List.enumerate 0 ids)))
             \<and> (distinct (map pk_of table) \<longrightarrow>
                  map pk_of (rows pk_of table qs)
                    = filter (\<lambda>i. i \<in> pk_of ` set table) (first_occurrences ids))
             \<and> (distinct ids \<longrightarrow> first_occurrences ids = ids)"
    using q by (intro exI [of _ ?qs]) simp
qed

theorem to_queryset_identifiers_in_hit_order_witness:
  "response car_search = None
   \<and> car_hits (search_source car_search ''excludes'' [''*'']) = Inr [3, 9, 1, 3]
   \<and> distinct (map id [1, 2, 3, 4 :: nat])
   \<and> snd (to_queryset car_hits car_search True) = [search_source car_search ''excludes'' [''*'']]
   \<and> fst (to_queryset car_hits car_search True)
       = Inr \<lparr>queryset_model = ''Car'', pk_in = [3, 9, 1, 3],
              order_by = Some (Case [When 3 0, When 9 1, When 1 2, When 3 3])\<rparr>
   \<and> map id (rows id [1, 2, 3, 4]
               \<lparr>queryset_model = ''Car'', pk_in = [3, 9, 1, 3 :: nat],
                order_by = Some (Case [When 3 0, When 9 1, When 1 2, When 3 3])\<rparr>) = [3, 1]"
  using to_queryset_identifiers_in_hit_order [where self = car_search and execute = car_hits
      and keep_order = True and pk_of = id and table = "[1, 2, 3, 4 :: nat]"]
  by (simp add: car_search_def car_hits_def to_queryset_def search_source_def clone_def
      enumerate_eq_zip upt_rec numeral_2_eq_2 numeral_3_eq_3)

section \<open>The action generator: results\<close>

lemma prepare_action_Name:
  assumes "index_name d = Name n"
  shows "prepare_action st d obj action language fs t
           = (Inl (UnboundLocalError ''i''),
              override_exit st (get_language st t) (override_enter st language t))"
  unfolding prepare_action_def translation_override_pure
  by (simp add: assms get_custom_index_name_def read_local_def Let_def)

lemma gen_for_first_raises:
  assumes "loop_body x s = (([], Some e), s')"
  shows "gen_for (x # xs) loop_body s = (([], Some e), s')"
  using assms by simp

text \<open>
  C2. \<open>_get_actions\<close> should yield one action per object, or one per object and
  language analyser when translation is enabled, in the order of the objects, with or
  without pagination. For a document whose index has a single name the code yields
  nothing: the first \<open>_prepare_action\<close> raises \<open>UnboundLocalError\<close> while it
  computes the index name. So it is for one object without translation and pagination,
  where one action is expected, and for 1200 objects, page size 500 and two language
  analysers, where 2400 are.
\<close>

theorem get_actions_yields_nothing:
  "get_actions plain_settings car_document [''kia''] ''index'' True Deactivated
     = (([], Some (UnboundLocalError ''i'')), Deactivated)
   \<and> get_actions example_settings (car_document\<lparr>queryset_pagination := Some 500\<rparr>)
        (replicate 1200 ''kia'') ''index'' True Deactivated
     = (([], Some (UnboundLocalError ''i'')), Deactivated)"
proof -
  have n1: "index_name car_document = Name ''cars''"
    by (simp add: car_document_def)
  have n2: "index_name (car_document\<lparr>queryset_pagination := Some 500\<rparr>) = Name ''cars''"
    by (simp add: car_document_def)
  have q1: "queryset_pagination car_document = None"
    by (simp add: car_document_def)
  have q2: "queryset_pagination (car_document\<lparr>queryset_pagination := Some 500\<rparr>) = Some 500"
    by simp
  have t1: "getattr (ELASTICSEARCH_DSL_TRANSLATION_ENABLED plain_settings) False = False"
    by (simp add: plain_settings_def getattr_def)
  have t2: "getattr (ELASTICSEARCH_DSL_TRANSLATION_ENABLED example_settings) False = True"
    and l2: "LANGUAGE_ANALYSERS example_settings = [''en'', ''es'']"
    by (simp_all add: example_settings_def getattr_def)
  have x: "override_exit st None t = deactivate_all st t" for st t
    by (simp add: override_exit_def)
  have g: "get_language plain_settings Deactivated = None"
    "get_language example_settings Deactivated = None"
    by (simp_all add: get_language_def plain_settings_def example_settings_def)
  have u: "deactivate_all plain_settings t = Deactivated"
    "deactivate_all example_settings t = Deactivated" for t
    by (simp_all add: deactivate_all_def plain_settings_def example_settings_def)
  have a: "get_actions plain_settings car_document [''kia''] ''index'' True Deactivated
             = (([], Some (UnboundLocalError ''i'')), Deactivated)"
    by (simp add: get_actions_def q1 t1 gen_yield_def prepare_action_Name [OF n1] g x u)
  have pr: "page_range \<lparr>object_list = replicate 1200 ''kia'', per_page = 500\<rparr> = Inr (1 # [2..3])"
    by (simp add: page_range_def num_pages_def upto_rec1)
  have pg: "paginator_page \<lparr>object_list = replicate 1200 ''kia'', per_page = 500\<rparr> 1
              = Inr (''kia'' # replicate 499 ''kia'')"
    by (simp add: paginator_page_def num_pages_def py_slice_def Let_def min_def
        replicate_Suc [symmetric] del: replicate.simps)
  have b: "get_actions example_settings (car_document\<lparr>queryset_pagination := Some 500\<rparr>)
             (replicate 1200 ''kia'') ''index'' True Deactivated
           = (([], Some (UnboundLocalError ''i'')), Deactivated)"
    by (simp add: get_actions_def q2 t2 l2 Let_def gen_try_def pr pg
        gen_yield_def prepare_action_Name [OF n2] g x u del: replicate.simps)
  from a b show ?thesis by simp
qed

section \<open>The action generator once every action is prepared\<close>

text \<open>
  The loops and the pagination of \<open>_get_actions\<close> taken by themselves: whenever
  every call of \<open>_prepare_action\<close> returns an action, and the page size, if one is
  configured, is positive, the generator yields the actions of the objects in the order
  of the objects, one per object, or one per object and language analyser with the
  languages in their order, and ends without an exception. Pagination changes nothing.
\<close>

lemma gen_for_all_ok:
  assumes "\<And>x. x \<in> set xs \<Longrightarrow> loop_body x s = ((f x, None), s)"
  shows "gen_for xs loop_body s = ((concat (map f xs), None), s)"
  using assms by (induction xs) simp_all

lemma gen_yield_ok:
  assumes "expr s = (Inr v, s)"
  shows "gen_yield expr s = (([v], None), s)"
  using assms by (simp add: gen_yield_def)

lemma num_pages_pos:
  assumes "0 < p"
  shows "\<exists>n. num_pages \<lparr>object_list = xs, per_page = p\<rparr> = Inr (int n)
           \<and> 0 < n \<and> (int n - 1) * p < max 1 (int (length xs))
           \<and> max 1 (int (length xs)) \<le> int n * p"
proof -
  define h where "h = max 1 (int (length xs))"
  define q where "q = (- h) div p"
  have h1: "1 \<le> h" by (simp add: h_def)
  have e: "- h = q * p + (- h) mod p" by (simp add: q_def)
  have m: "0 \<le> (- h) mod p" "(- h) mod p < p" using assms by simp_all
  from e m have b1: "q * p \<le> - h" and b2: "- h < (q + 1) * p"
    by (simp_all add: algebra_simps)
  have "\<not> 0 \<le> q"
  proof
    assume "0 \<le> q"
    then have "0 \<le> q * p" using assms by simp
    with b1 h1 show False by linarith
  qed
  then have "q < 0" by simp
  then obtain n where n: "int n = - q" and npos: "0 < n"
    by (metis neg_0_less_iff_less zero_less_imp_eq_int)
  have np: "num_pages \<lparr>object_list = xs, per_page = p\<rparr> = Inr (int n)"
    using assms by (simp add: num_pages_def h_def [symmetric] q_def [symmetric] n)
  from b2 have "(int n - 1) * p < h" by (simp add: n algebra_simps)
  moreover from b1 have "h \<le> int n * p" by (simp add: n algebra_simps)
  ultimately show ?thesis using np npos unfolding h_def by blast
qed

lemma upto_from_one: "[1..int n] = map (\<lambda>i. int (Suc i)) [0..<n]"
proof (induction n)
  case 0
  show ?case by simp
next
  case (Suc n)
  have "[1..int (Suc n)] = [1..int n] @ [int (Suc n)]"
    using upto_rec2 [of 1 "int (Suc n)"] by simp
  with Suc show ?case by simp
qed

lemma concat_chunks:
  "concat (map (\<lambda>i. take P (drop (i * P) xs)) [0..<n]) = take (n * P) xs"
proof (induction n)
  case 0
  show ?case by simp
next
  case (Suc n)
  have "take (n * P) xs @ take P (drop (n * P) xs) = take (n * P + P) xs"
    by (simp add: take_add)
  with Suc show ?case by (simp add: add.commute)
qed

lemma py_slice_nat:
  "py_slice xs (int b) (int t) = take (min t (length xs) - min b (length xs)) (drop (min b (length xs)) xs)"
  by (simp add: py_slice_def Let_def min_def nat_diff_distrib')

lemma paginator_page_chunk:
  assumes "0 < p"
      and "num_pages \<lparr>object_list = xs, per_page = p\<rparr> = Inr (int n)"
      and "(int n - 1) * p < max 1 (int (length xs))"
      and "i < n"
  shows "paginator_page \<lparr>object_list = xs, per_page = p\<rparr> (int (Suc i))
           = Inr (take (nat p) (drop (i * nat p) xs))"
proof -
  define P where "P = nat p"
  define B where "B = i * P"
  have p: "p = int P" using assms(1) by (simp add: P_def)
  have "int i * p \<le> (int n - 1) * p"
    using assms(1) assms(4) by (simp add: mult_right_mono)
  with assms(3) have lt: "int B < max 1 (int (length xs))"
    by (simp add: p B_def)
  have bottom: "(int (Suc i) - 1) * p = int B" by (simp add: p B_def)
  have top0: "int B + p = int (B + P)" by (simp add: p)
  have valid: "\<not> int (Suc i) < 1" "\<not> (int (Suc i) > int n \<and> int (Suc i) \<noteq> 1)"
    using assms(4) by simp_all
  have slice: "py_slice xs (int B)
                 (if int (B + P) + 0 \<ge> int (length xs) then int (length xs) else int (B + P))
               = take P (drop B xs)"
  proof (cases "xs = []")
    case True
    then show ?thesis by (simp add: py_slice_def)
  next
    case False
    then have "1 \<le> int (length xs)" by (cases xs) simp_all
    with lt have "int B < int (length xs)" by linarith
    then have lt': "B < length xs" by (simp only: of_nat_less_iff)
    show ?thesis
    proof (cases "length xs \<le> B + P")
      case True
      then have "take P (drop B xs) = drop B xs" by simp
      moreover have "py_slice xs (int B) (int (length xs)) = drop B xs"
        using lt' by (simp add: py_slice_nat min_def)
      moreover have "int (B + P) + 0 \<ge> int (length xs)"
        using True by linarith
      ultimately show ?thesis by (simp only: if_True)
    next
      case F: False
      then have "py_slice xs (int B) (int (B + P)) = take P (drop B xs)"
        using lt' py_slice_nat [of xs B "B + P"] by (simp add: min_def)
      moreover have "\<not> int (B + P) + 0 \<ge> int (length xs)"
        using F by linarith
      ultimately show ?thesis by (simp only: if_False)
    qed
  qed
  show ?thesis
    unfolding paginator_page_def assms(2) P_def [symmetric] B_def [symmetric]
    by (simp only: sum.case valid if_False Let_def bottom top0 paginator.simps slice)
qed

lemma concat_map_chunks:
  "concat (map (\<lambda>i. concat (map f (c i))) js) = concat (map f (concat (map c js)))"
  by (induction js) simp_all

lemma paginated_loop:
  assumes "0 < p"
      and "\<And>x. x \<in> set xs \<Longrightarrow> loop_body x s = ((f x, None), s)"
  shows "gen_try (page_range \<lparr>object_list = xs, per_page = p\<rparr>) (\<lambda>pages.
           gen_for pages (\<lambda>page.
             gen_try (paginator_page \<lparr>object_list = xs, per_page = p\<rparr> page) (\<lambda>page_objects.
               gen_for page_objects loop_body))) s
         = ((concat (map f xs), None), s)"
proof -
  from num_pages_pos [OF assms(1), of xs] obtain n where
    np: "num_pages \<lparr>object_list = xs, per_page = p\<rparr> = Inr (int n)"
    and lo: "(int n - 1) * p < max 1 (int (length xs))"
    and hi: "max 1 (int (length xs)) \<le> int n * p"
    by blast
  define chunk where "chunk i = take (nat p) (drop (i * nat p) xs)" for i
  define g where "g page = concat (map f (chunk (nat (page - 1))))" for page :: int
  have pr: "page_range \<lparr>object_list = xs, per_page = p\<rparr> = Inr (map (\<lambda>i. int (Suc i)) [0..<n])"
    by (simp add: page_range_def np upto_from_one)
  have page: "gen_try (paginator_page \<lparr>object_list = xs, per_page = p\<rparr> page)
                (\<lambda>page_objects. gen_for page_objects loop_body) s = ((g page, None), s)"
    if "page \<in> set (map (\<lambda>i. int (Suc i)) [0..<n])" for page
  proof -
    from that obtain i where i: "i < n" and pg: "page = int (Suc i)" by auto
    have "set (chunk i) \<subseteq> set xs"
      unfolding chunk_def by (meson set_take_subset set_drop_subset subset_trans)
    then have "gen_for (chunk i) loop_body s = ((concat (map f (chunk i)), None), s)"
      by (intro gen_for_all_ok assms(2)) blast
    moreover have "paginator_page \<lparr>object_list = xs, per_page = p\<rparr> page = Inr (chunk i)"
      unfolding pg chunk_def by (rule paginator_page_chunk [OF assms(1) np lo i])
    moreover have "g page = concat (map f (chunk i))"
      by (simp add: g_def pg)
    ultimately show ?thesis
      by (simp only: gen_try_def sum.case)
  qed
  have "int (length xs) \<le> int n * p" using hi by simp
  then have "int (length xs) \<le> int (n * nat p)" using assms(1) by simp
  then have cover: "length xs \<le> n * nat p" by (simp only: of_nat_le_iff)
  have "concat (map g (map (\<lambda>i. int (Suc i)) [0..<n]))
          = concat (map (\<lambda>i. concat (map f (chunk i))) [0..<n])"
    by (simp add: g_def comp_def)
  also have "\<dots> = concat (map f (concat (map chunk [0..<n])))"
    by (rule concat_map_chunks)
  also have "concat (map chunk [0..<n]) = xs"
    unfolding chunk_def using concat_chunks [of "nat p" xs n] cover by simp
  finally have all: "concat (map g (map (\<lambda>i. int (Suc i)) [0..<n])) = concat (map f xs)" .
  have "gen_for (map (\<lambda>i. int (Suc i)) [0..<n])
          (\<lambda>page. gen_try (paginator_page \<lparr>object_list = xs, per_page = p\<rparr> page)
                     (\<lambda>page_objects. gen_for page_objects loop_body)) s
        = ((concat (map g (map (\<lambda>i. int (Suc i)) [0..<n])), None), s)"
    by (rule gen_for_all_ok) (rule page)
  then show ?thesis
    unfolding pr all by (simp only: gen_try_def sum.case)
qed

lemma language_fan_out:
  assumes "\<And>l. prepare_action st d x action (Some l) fs active = (Inr (act x (Some l) fs), active)"
  shows "gen_for langs (\<lambda>language. gen_yield (prepare_action st d x action (Some language) fs)) active
           = ((map (\<lambda>l. act x (Some l) fs) langs, None), active)"
proof -
  have "gen_for langs (\<lambda>language. gen_yield (prepare_action st d x action (Some language) fs)) active
          = ((concat (map (\<lambda>l. [act x (Some l) fs]) langs), None), active)"
    by (rule gen_for_all_ok) (simp add: gen_yield_ok assms)
  then show ?thesis by simp
qed

lemma get_actions_when_prepared:
  assumes "case queryset_pagination d of None \<Rightarrow> True | Some p \<Rightarrow> 0 < p"
      and "\<And>x l f. x \<in> set objects \<Longrightarrow>
             prepare_action st d x action l f active = (Inr (act x l f), active)"
  shows "get_actions st d objects action fs active
           = ((if getattr (ELASTICSEARCH_DSL_TRANSLATION_ENABLED st) False
               then concat (map (\<lambda>x. map (\<lambda>l. act x (Some l) fs) (LANGUAGE_ANALYSERS st)) objects)
               else map (\<lambda>x. act x None True) objects, None), active)"
proof (cases "getattr (ELASTICSEARCH_DSL_TRANSLATION_ENABLED st) False")
  case True
  have body: "gen_for (LANGUAGE_ANALYSERS st)
                (\<lambda>language. gen_yield (prepare_action st d x action (Some language) fs)) active
              = ((map (\<lambda>l. act x (Some l) fs) (LANGUAGE_ANALYSERS st), None), active)"
    if "x \<in> set objects" for x
    by (rule language_fan_out) (rule assms(2) [OF that])
  show ?thesis
  proof (cases "queryset_pagination d")
    case None
    have "gen_for objects (\<lambda>object_instance. gen_for (LANGUAGE_ANALYSERS st)
            (\<lambda>language. gen_yield (prepare_action st d object_instance action (Some language) fs)))
            active
          = ((concat (map (\<lambda>x. map (\<lambda>l. act x (Some l) fs) (LANGUAGE_ANALYSERS st)) objects),
              None), active)"
      by (rule gen_for_all_ok) (rule body)
    then show ?thesis by (simp add: get_actions_def True None)
  next
    case (Some p)
    with assms(1) have p: "0 < p" by simp
    have "gen_try (page_range \<lparr>object_list = objects, per_page = p\<rparr>) (\<lambda>pages.
            gen_for pages (\<lambda>page.
              gen_try (paginator_page \<lparr>object_list = objects, per_page = p\<rparr> page)
                (\<lambda>page_objects. gen_for page_objects (\<lambda>object_instance.
                   gen_for (LANGUAGE_ANALYSERS st) (\<lambda>language.
                     gen_yield (prepare_action st d object_instance action (Some language) fs))))))
            active
          = ((concat (map (\<lambda>x. map (\<lambda>l. act x (Some l) fs) (LANGUAGE_ANALYSERS st)) objects),
              None), active)"
      by (rule paginated_loop [OF p]) (rule body)
    then show ?thesis by (simp add: get_actions_def True Some Let_def)
  qed
next
  case False
  have body: "gen_yield (prepare_action st d x action None True) active
                = (([act x None True], None), active)"
    if "x \<in> set objects" for x
    by (rule gen_yield_ok) (rule assms(2) [OF that])
  have flat: "concat (map (\<lambda>x. [act x None True]) objects) = map (\<lambda>x. act x None True) objects"
    by simp
  show ?thesis
  proof (cases "queryset_pagination d")
    case None
    have "gen_for objects (\<lambda>object_instance.
            gen_yield (prepare_action st d object_instance action None True)) active
          = ((concat (map (\<lambda>x. [act x None True]) objects), None), active)"
      by (rule gen_for_all_ok) (rule body)
    then show ?thesis by (simp add: get_actions_def False None)
  next
    case (Some p)
    with assms(1) have p: "0 < p" by simp
    have "gen_try (page_range \<lparr>object_list = objects, per_page = p\<rparr>) (\<lambda>pages.
            gen_for pages (\<lambda>page.
              gen_try (paginator_page \<lparr>object_list = objects, per_page = p\<rparr> page)
                (\<lambda>page_objects. gen_for page_objects (\<lambda>object_instance.
                   gen_yield (prepare_action st d object_instance action None True))))) active
          = ((concat (map (\<lambda>x. [act x None True]) objects), None), active)"
      by (rule paginated_loop [OF p]) (rule body)
    then show ?thesis by (simp add: get_actions_def False Some Let_def)
  qed
qed

lemma get_actions_count_when_prepared:
  assumes "case queryset_pagination d of None \<Rightarrow> True | Some p \<Rightarrow> 0 < p"
      and "\<And>x l f. x \<in> set objects \<Longrightarrow>
             prepare_action st d x action l f active = (Inr (act x l f), active)"
  shows "length (fst (fst (get_actions st d objects action fs active)))
           = (if getattr (ELASTICSEARCH_DSL_TRANSLATION_ENABLED st) False
              then length objects * length (LANGUAGE_ANALYSERS st) else length objects)"
proof -
  have e: "get_actions st d objects action fs active
           = ((if getattr (ELASTICSEARCH_DSL_TRANSLATION_ENABLED st) False
               then concat (map (\<lambda>x. map (\<lambda>l. act x (Some l) fs) (LANGUAGE_ANALYSERS st)) objects)
               else map (\<lambda>x. act x None True) objects, None), active)"
    using assms(1) by (rule get_actions_when_prepared) (rule assms(2))
  show ?thesis
    unfolding e by (simp add: length_concat comp_def sum_list_triv)
qed

text \<open>
  The pages of 1200 objects at page size 500: three pages, of 500, 500 and 200 objects.
\<close>

lemma scenario_pages:
  assumes "length xs = 1200"
  shows "page_range \<lparr>object_list = xs, per_page = 500\<rparr> = Inr [1, 2, 3]"
    and "map (\<lambda>k. map_sum id length (paginator_page \<lparr>object_list = xs, per_page = 500\<rparr> k))
           [1, 2, 3] = [Inr 500, Inr 500, Inr 200]"
  using assms
  by (simp_all add: page_range_def paginator_page_def num_pages_def py_slice_def Let_def
      upto_rec1)

text \<open>
  The hypothesis is met by any document whose index is given as a list of names, for
  the action \<open>delete\<close>, which prepares no document, from a translation state that
  \<open>translation.override\<close> leaves as it finds it.
\<close>

lemma override_round_trip:
  assumes "\<not> USE_I18N st \<or> t = Deactivated
           \<or> (\<exists>l. t = Activated l \<and> l \<noteq> [] \<and> to_language l = l)"
  shows "override_exit st (get_language st t) (override_enter st language t) = t"
  using assms
  by (cases language)
     (auto simp add: override_exit_def override_enter_def get_language_def activate_def
        deactivate_all_def)

lemma prepare_action_delete_Names:
  assumes "index_name d = Names ns"
      and "\<not> USE_I18N st \<or> active = Deactivated
           \<or> (\<exists>l. active = Activated l \<and> l \<noteq> [] \<and> to_language l = l)"
  shows "\<exists>idx. prepare_action st d x ''delete'' l f active
           = (Inr \<lparr>op_type = ''delete'', index = idx, type_name = doc_type_name d,
                   doc_id = pk d x, source = None\<rparr>, active)"
  unfolding prepare_action_def translation_override_pure override_round_trip [OF assms(2)]
  by (simp add: assms(1) get_custom_index_name_Names Let_def)

lemma get_actions_delete_count_Names:
  assumes "index_name d = Names ns"
      and "case queryset_pagination d of None \<Rightarrow> True | Some p \<Rightarrow> 0 < p"
      and "\<not> USE_I18N st \<or> active = Deactivated
           \<or> (\<exists>l. active = Activated l \<and> l \<noteq> [] \<and> to_language l = l)"
  shows "length (fst (fst (get_actions st d objects ''delete'' fs active)))
           = (if getattr (ELASTICSEARCH_DSL_TRANSLATION_ENABLED st) False
              then length objects * length (LANGUAGE_ANALYSERS st) else length objects)"
proof -
  define act where "act x l f = projr (fst (prepare_action st d x ''delete'' l f active))"
    for x :: 'a and l f
  have "prepare_action st d x ''delete'' l f active = (Inr (act x l f), active)" for x l f
    using prepare_action_delete_Names [OF assms(1) assms(3), of x l f]
    by (auto simp add: act_def)
  with assms(2) show ?thesis
    by (intro get_actions_count_when_prepared) simp_all
qed

subsection \<open>What update passes on\<close>

text \<open>\<open>update\<close> hands \<open>bulk\<close> a generator.\<close>

lemma update_passes_generator:
  assumes "''chunk_size'' \<notin> dom kwargs" and "''max_chunk_bytes'' \<notin> dom kwargs"
  shows "\<exists>xs e kwargs'. update st d cluster thing refresh action fs kwargs active
           = bulk st d cluster (ActionGenerator xs e) kwargs'"
proof -
  define kwargs1 where "kwargs1 =
    (if refresh = Some True \<or> (refresh = None \<and> auto_refresh d)
     then kwargs(''refresh'' \<mapsto> VBool True) else kwargs)"
  have "''chunk_size'' \<notin> dom kwargs1" and "''max_chunk_bytes'' \<notin> dom kwargs1"
    using assms by (simp_all add: kwargs1_def)
  then have "\<not> (''chunk_size'' \<in> dom kwargs1 \<or> ''max_chunk_bytes'' \<in> dom kwargs1)"
    by simp
  then show ?thesis
    unfolding update_def Let_def kwargs1_def [symmetric]
    by (simp only: if_False) blast
qed

section \<open>Unmapped model fields: results\<close>

lemma to_field_fails_iff_other:
  "(\<exists>e. to_field n c = Inl e) \<longleftrightarrow> (\<exists>s. c = models_Other s)"
  by (cases c) (simp_all add: to_field_def)

lemma define_document_fields_fails:
  "define_document_fields decl = Inl e \<Longrightarrow>
   \<exists>n c. (n, c) \<in> set decl \<and> model_field_class_to_field_class c = None
     \<and> e = ModelFieldNotMappedError
             (''Cannot convert model field '' @ n @ '' to an Elasticsearch field!'')"
proof (induction decl)
  case Nil
  then show ?case by simp
next
  case (Cons nc decl)
  obtain n c where nc: "nc = (n, c)" by (cases nc)
  show ?case
  proof (cases "to_field n c")
    case (Inl e')
    with Cons.prems nc have "e = e'" by simp
    with Inl have "model_field_class_to_field_class c = None
      \<and> e = ModelFieldNotMappedError
               (''Cannot convert model field '' @ n @ '' to an Elasticsearch field!'')"
      by (cases "model_field_class_to_field_class c") (simp_all add: to_field_def)
    with nc show ?thesis by auto
  next
    case (Inr f)
    with Cons.prems nc have "define_document_fields decl = Inl e"
      by (simp split: sum.splits)
    from Cons.IH [OF this] show ?thesis by auto
  qed
qed

lemma define_document_fields_succeeds:
  "define_document_fields decl = Inr fs \<Longrightarrow>
   (\<forall>(n, c)\<in>set decl. model_field_class_to_field_class c \<noteq> None)
   \<and> map fst fs = map fst decl
   \<and> (\<forall>(n, f)\<in>set fs. attr f = n)"
proof (induction decl arbitrary: fs)
  case Nil
  then show ?case by simp
next
  case (Cons nc decl)
  obtain n c where nc: "nc = (n, c)" by (cases nc)
  from Cons.prems nc obtain f fs' where f: "to_field n c = Inr f"
    and r: "define_document_fields decl = Inr fs'" and fs: "fs = (n, f) # fs'"
    by (auto split: sum.splits)
  from f have "model_field_class_to_field_class c \<noteq> None" and "attr f = n"
    by (auto simp add: to_field_def split: option.splits)
  with Cons.IH [OF r] nc fs show ?case by simp
qed

lemma define_document_fields_fails_iff:
  "(\<exists>e. define_document_fields decl = Inl e)
     \<longleftrightarrow> (\<exists>(n, c)\<in>set decl. model_field_class_to_field_class c = None)"
proof (cases "define_document_fields decl")
  case (Inl e)
  from define_document_fields_fails [OF this] Inl show ?thesis by auto
next
  case (Inr fs)
  from define_document_fields_succeeds [OF this] Inr show ?thesis by auto
qed

lemma get_custom_index_name_error:
  "get_custom_index_name st dflt idx language = Inl e \<Longrightarrow> e = UnboundLocalError ''i''"
  by (cases idx)
     (auto simp add: get_custom_index_name_def read_local_def Let_def split: if_splits)

lemma prepare_field_not_unmapped:
  assumes "\<forall>n h i r a. prepare_with_related d n = Some h \<longrightarrow> \<not> raises_ModelFieldNotMappedError (h i r a)"
      and "\<forall>n h i a. prepare_hook d n = Some h \<longrightarrow> \<not> raises_ModelFieldNotMappedError (h i a)"
      and "\<forall>n v f a. \<not> raises_ModelFieldNotMappedError (translate_field d n v f a)"
      and "\<forall>f i r a. \<not> raises_ModelFieldNotMappedError (get_value_from_instance d f i r a)"
  shows "\<not> raises_ModelFieldNotMappedError (prepare_field st d inst fs a name field)"
proof -
  define resolved where "resolved =
           (case prepare_with_related d name of
              Some h \<Rightarrow> h inst (related_instance_to_ignore d) a
            | None \<Rightarrow>
                (case prepare_hook d name of
                   Some h \<Rightarrow> h inst a
                 | None \<Rightarrow>
                     get_value_from_instance d
                       (if path field = [] then field\<lparr>path := [name]\<rparr> else field)
                       inst (related_instance_to_ignore d) a))"
  have r: "\<not> raises_ModelFieldNotMappedError resolved"
    unfolding resolved_def using assms(1) assms(2) assms(4)
    by (auto split: option.splits)
  have p: "prepare_field st d inst fs a name field =
        (case resolved of
           Inl e \<Rightarrow> Inl e
         | Inr v \<Rightarrow> if getattr (ELASTICSEARCH_DSL_TRANSLATION_ENABLED st) False
                    then translate_field d name v fs a else Inr v)"
    unfolding prepare_field_def Let_def resolved_def by simp
  show ?thesis
    unfolding p using r assms(3)
    by (cases resolved) (auto simp add: raises_ModelFieldNotMappedError_def)
qed

lemma prepare_loop_not_unmapped:
  assumes "\<And>name field. \<not> raises_ModelFieldNotMappedError (prepare_field st d inst fs a name field)"
  shows "\<not> raises_ModelFieldNotMappedError (prepare_loop st d inst fs a flds data)"
proof (induction flds arbitrary: data)
  case Nil
  show ?case by (simp add: raises_ModelFieldNotMappedError_def)
next
  case (Cons nf flds)
  obtain n f where nf: "nf = (n, f)" by (cases nf)
  show ?case
  proof (cases "prepare_field st d inst fs a n f")
    case (Inl e)
    with assms [of n f] have "\<not> is_ModelFieldNotMappedError e"
      by (simp add: raises_ModelFieldNotMappedError_def)
    with Inl show ?thesis
      using Cons.IH [of data] by (simp add: nf raises_ModelFieldNotMappedError_def)
  next
    case (Inr v)
    then show ?thesis
      using Cons.IH [of data] Cons.IH [of "data(n \<mapsto> v)"]
      by (simp add: nf del: fun_upd_apply)
  qed
qed

lemma prepare_action_not_unmapped:
  assumes "\<And>a. \<not> raises_ModelFieldNotMappedError (prepare st d x fs a)"
  shows "\<not> raises_ModelFieldNotMappedError (fst (prepare_action st d x action language fs t))"
proof -
  let ?a = "get_language st (override_enter st language t)"
  show ?thesis
  proof (cases "get_custom_index_name st (default_index d) (index_name d) language")
    case (Inl e)
    from get_custom_index_name_error [OF this] Inl show ?thesis
      unfolding prepare_action_def translation_override_pure
      by (simp add: raises_ModelFieldNotMappedError_def)
  next
    case (Inr idx)
    show ?thesis
    proof (cases "prepare st d x fs ?a")
      case (Inl e)
      with assms [of ?a] have "\<not> is_ModelFieldNotMappedError e"
        by (simp add: raises_ModelFieldNotMappedError_def)
      with Inl Inr show ?thesis
        unfolding prepare_action_def translation_override_pure
        by (simp add: raises_ModelFieldNotMappedError_def)
    next
      case Inr2: (Inr data)
      with Inr show ?thesis
        unfolding prepare_action_def translation_override_pure
        by (simp add: raises_ModelFieldNotMappedError_def)
    qed
  qed
qed

lemma gen_yield_error:
  "snd (fst (gen_yield expr s)) = Some e \<Longrightarrow> fst (expr s) = Inl e"
  by (cases "expr s"; cases "fst (expr s)") (auto simp add: gen_yield_def)

lemma gen_for_error:
  assumes "\<And>x s e. snd (fst (loop_body x s)) = Some e \<Longrightarrow> P e"
  shows "snd (fst (gen_for xs loop_body s)) = Some e \<Longrightarrow> P e"
proof (induction xs arbitrary: s)
  case Nil
  then show ?case by simp
next
  case (Cons x xs)
  obtain q s' where q: "loop_body x s = (q, s')"
    by (cases "loop_body x s")
  obtain ys r where "q = (ys, r)"
    by (cases q)
  with q have b: "loop_body x s = ((ys, r), s')" by simp
  show ?case
  proof (cases r)
    case None
    with Cons.prems b have "snd (fst (gen_for xs loop_body s')) = Some e"
      by (simp split: prod.splits)
    then show ?thesis by (rule Cons.IH)
  next
    case (Some e')
    with Cons.prems b have "e' = e" by simp
    with b Some have "snd (fst (loop_body x s)) = Some e" by simp
    then show ?thesis by (rule assms)
  qed
qed

lemma gen_try_error:
  assumes "\<And>e. r = Inl e \<Longrightarrow> P e"
      and "\<And>v e. snd (fst (k v s)) = Some e \<Longrightarrow> P e"
  shows "snd (fst (gen_try r k s)) = Some e \<Longrightarrow> P e"
  using assms by (cases r) (auto simp add: gen_try_def)

lemma page_range_error:
  "page_range p = Inl e \<Longrightarrow> e = ZeroDivisionError"
  by (auto simp add: page_range_def num_pages_def Let_def split: if_splits sum.splits)

lemma paginator_page_error:
  "paginator_page p n = Inl e \<Longrightarrow> e = ZeroDivisionError \<or> e = EmptyPage"
  by (auto simp add: paginator_page_def num_pages_def Let_def split: if_splits sum.splits)

lemma get_actions_not_unmapped:
  assumes "\<And>x l f t. \<not> raises_ModelFieldNotMappedError (fst (prepare_action st d x action l f t))"
      and "snd (fst (get_actions st d objects action fs t)) = Some e"
  shows "\<not> is_ModelFieldNotMappedError e"
proof -
  let ?P = "\<lambda>e. \<not> is_ModelFieldNotMappedError e"
  have Y: "?P e" if "snd (fst (gen_yield (prepare_action st d x action l f) s)) = Some e"
    for x l f s e
    using gen_yield_error [OF that] assms(1) [of x l f s]
    by (simp add: raises_ModelFieldNotMappedError_def)
  have L: "?P e"
    if "snd (fst (gen_for (LANGUAGE_ANALYSERS st)
                   (\<lambda>language. gen_yield (prepare_action st d x action (Some language) fs)) s))
        = Some e" for x s e
    using that by (rule gen_for_error [rotated]) (rule Y)
  have O1: "?P e"
    if "snd (fst (gen_for xs (\<lambda>object_instance. gen_for (LANGUAGE_ANALYSERS st)
                   (\<lambda>language. gen_yield (prepare_action st d object_instance action
                                              (Some language) fs))) s)) = Some e" for xs s e
    using that by (rule gen_for_error [rotated]) (rule L)
  have O2: "?P e"
    if "snd (fst (gen_for xs (\<lambda>object_instance.
                   gen_yield (prepare_action st d object_instance action None True)) s))
        = Some e" for xs s e
    using that by (rule gen_for_error [rotated]) (rule Y)
  have PG: "?P e"
    if "snd (fst (gen_try (page_range pg) (\<lambda>pages. gen_for pages (\<lambda>page.
                    gen_try (paginator_page pg page) (\<lambda>page_objects. gen_for page_objects body)))
                  s)) = Some e"
      and inner: "\<And>xs s e. snd (fst (gen_for xs body s)) = Some e \<Longrightarrow> ?P e"
    for pg :: "'a paginator" and body :: "'a \<Rightarrow> (bulk_action, active_translation) generated"
      and s :: active_translation and e
    using that(1)
  proof (rule gen_try_error [rotated 2])
    fix e' assume "page_range pg = Inl e'"
    from page_range_error [OF this] show "?P e'" by simp
  next
    fix pages e'
    assume "snd (fst (gen_for pages (\<lambda>page.
                    gen_try (paginator_page pg page) (\<lambda>page_objects. gen_for page_objects body))
                  s)) = Some e'"
    then show "?P e'"
    proof (rule gen_for_error [rotated])
      fix page s' e''
      assume "snd (fst (gen_try (paginator_page pg page)
                     (\<lambda>page_objects. gen_for page_objects body) s')) = Some e''"
      then show "?P e''"
      proof (rule gen_try_error [rotated 2])
        fix e3 assume "paginator_page pg page = Inl e3"
        from paginator_page_error [OF this] show "?P e3" by auto
      next
        fix v e3 assume "snd (fst (gen_for v body s')) = Some e3"
        then show "?P e3" by (rule inner)
      qed
    qed
  qed
  show ?thesis
  proof (cases "getattr (ELASTICSEARCH_DSL_TRANSLATION_ENABLED st) False")
    case True
    show ?thesis
    proof (cases "queryset_pagination d")
      case None
      with assms(2) True show ?thesis
        by (simp add: get_actions_def) (rule O1)
    next
      case (Some p)
      with assms(2) True show ?thesis
        by (simp add: get_actions_def Let_def) (erule PG, rule O1)
    qed
  next
    case False
    show ?thesis
    proof (cases "queryset_pagination d")
      case None
      with assms(2) False show ?thesis
        by (simp add: get_actions_def) (rule O2)
    next
      case (Some p)
      with assms(2) False show ?thesis
        by (simp add: get_actions_def Let_def) (erule PG, rule O2)
    qed
  qed
qed

lemma bulk_not_unmapped:
  assumes "\<And>alias items. \<not> raises_ModelFieldNotMappedError (cluster alias items kwargs)"
      and "\<And>e. pending actions = Some e \<Longrightarrow> \<not> is_ModelFieldNotMappedError e"
  shows "\<not> raises_ModelFieldNotMappedError (fst (bulk st d cluster actions kwargs))"
proof (cases "fst (bulk st d cluster actions kwargs)")
  case (Inr r)
  then show ?thesis by (simp add: raises_ModelFieldNotMappedError_def)
next
  case (Inl e)
  obtain result calls where b: "bulk st d cluster actions kwargs = (result, calls)"
    by (cases "bulk st d cluster actions kwargs")
  with Inl have "result = Inl e" by simp
  with bulk_calls [of st d cluster actions kwargs] b
  have "cluster (fst (last calls)) (snd (last calls)) kwargs = Inl e \<or> pending actions = Some e"
    by simp
  then have "\<not> is_ModelFieldNotMappedError e"
  proof
    assume "cluster (fst (last calls)) (snd (last calls)) kwargs = Inl e"
    with assms(1) [of "fst (last calls)" "snd (last calls)"] show ?thesis
      by (simp add: raises_ModelFieldNotMappedError_def)
  next
    assume "pending actions = Some e"
    then show ?thesis by (rule assms(2))
  qed
  with Inl show ?thesis by (simp add: raises_ModelFieldNotMappedError_def)
qed

lemma update_not_unmapped:
  assumes "\<forall>n h i r a. prepare_with_related d n = Some h \<longrightarrow> \<not> raises_ModelFieldNotMappedError (h i r a)"
      and "\<forall>n h i a. prepare_hook d n = Some h \<longrightarrow> \<not> raises_ModelFieldNotMappedError (h i a)"
      and "\<forall>n v f a. \<not> raises_ModelFieldNotMappedError (translate_field d n v f a)"
      and "\<forall>f i r a. \<not> raises_ModelFieldNotMappedError (get_value_from_instance d f i r a)"
      and "\<forall>alias items kw. \<not> raises_ModelFieldNotMappedError (cluster alias items kw)"
  shows "\<not> raises_ModelFieldNotMappedError
           (fst (update st d cluster thing refresh action fs kwargs t))"
proof -
  have pf: "\<not> raises_ModelFieldNotMappedError (prepare_field st d inst f a name field)"
    for inst f a name field
    using assms(1) assms(2) assms(3) assms(4) by (rule prepare_field_not_unmapped)
  have pr: "\<not> raises_ModelFieldNotMappedError (prepare st d x f a)" for x f a
    unfolding prepare_def by (rule prepare_loop_not_unmapped) (rule pf)
  have pa: "\<not> raises_ModelFieldNotMappedError (fst (prepare_action st d x action l f s))"
    for x l f s
    by (rule prepare_action_not_unmapped) (rule pr)
  define objects where "objects = (case thing of Model m \<Rightarrow> [m] | Iterable xs \<Rightarrow> xs)"
  define run where "run = fst (get_actions st d objects action fs t)"
  have gen: "\<not> is_ModelFieldNotMappedError e"
    if "pending (ActionGenerator (fst run) (snd run)) = Some e" for e
  proof -
    from that have "snd (fst (get_actions st d objects action fs t)) = Some e"
      by (simp add: pending_def run_def)
    with pa show ?thesis by (rule get_actions_not_unmapped)
  qed
  have b: "\<not> raises_ModelFieldNotMappedError
             (fst (bulk st d cluster (ActionGenerator (fst run) (snd run)) kw))" for kw
    using assms(5) gen by (intro bulk_not_unmapped) auto
  show ?thesis
    unfolding update_def Let_def objects_def [symmetric] run_def [symmetric]
    using b by (simp add: raises_ModelFieldNotMappedError_def)
qed

text \<open>
  C8. \<open>to_field\<close> fails exactly when the model field's class has no entry in the
  mapping, which is exactly when the class is none of the twenty listed ones, and then
  with \<open>ModelFieldNotMappedError\<close> whose message contains the field name; when the
  class has an entry, the result is an instance of the mapped search field class
  constructed with \<open>attr\<close> equal to the field name. The definition of a document
  class fails exactly when one of its declared fields has an unmapped class, with the
  error of such a field. Synchronisation does not raise the error: unless a hook of the
  document or a cluster raises it, \<open>update\<close> never ends with
  \<open>ModelFieldNotMappedError\<close>.
\<close>

theorem to_field_error_iff_unmapped:
  "((\<exists>e. to_field n c = Inl e) \<longleftrightarrow> model_field_class_to_field_class c = None)
   \<and> ((\<exists>e. to_field n c = Inl e) \<longleftrightarrow> (\<exists>s. c = models_Other s))
   \<and> (\<forall>e. to_field n c = Inl e \<longrightarrow>
          e = ModelFieldNotMappedError
                (''Cannot convert model field '' @ n @ '' to an Elasticsearch field!''))
   \<and> (\<forall>k. model_field_class_to_field_class c = Some k \<longrightarrow>
          to_field n c = Inr \<lparr>constructed_class = k, attr = n\<rparr>)
   \<and> ((\<exists>e. define_document_fields decl = Inl e)
        \<longleftrightarrow> (\<exists>(n, c)\<in>set decl. model_field_class_to_field_class c = None))
   \<and> (\<forall>e. define_document_fields decl = Inl e \<longrightarrow>
          (\<exists>n c. (n, c) \<in> set decl \<and> model_field_class_to_field_class c = None
             \<and> e = ModelFieldNotMappedError
                     (''Cannot convert model field '' @ n @ '' to an Elasticsearch field!'')))
   \<and> ((\<forall>n h i r a. prepare_with_related d n = Some h
              \<longrightarrow> \<not> raises_ModelFieldNotMappedError (h i r a))
        \<and> (\<forall>n h i a. prepare_hook d n = Some h \<longrightarrow> \<not> raises_ModelFieldNotMappedError (h i a))
        \<and> (\<forall>n v f a. \<not> raises_ModelFieldNotMappedError (translate_field d n v f a))
        \<and> (\<forall>f i r a. \<not> raises_ModelFieldNotMappedError (get_value_from_instance d f i r a))
        \<and> (\<forall>alias items kw. \<not> raises_ModelFieldNotMappedError (cluster alias items kw))
       \<longrightarrow> \<not> raises_ModelFieldNotMappedError
              (fst (update st d cluster thing refresh action fs kwargs t)))"
proof -
  have 1: "(\<exists>e. to_field n c = Inl e) \<longleftrightarrow> model_field_class_to_field_class c = None"
    by (cases "model_field_class_to_field_class c") (simp_all add: to_field_def)
  have 3: "\<forall>e. to_field n c = Inl e \<longrightarrow>
          e = ModelFieldNotMappedError
                (''Cannot convert model field '' @ n @ '' to an Elasticsearch field!'')"
    by (cases "model_field_class_to_field_class c") (simp_all add: to_field_def)
  have 4: "\<forall>k. model_field_class_to_field_class c = Some k \<longrightarrow>
          to_field n c = Inr \<lparr>constructed_class = k, attr = n\<rparr>"
    by (simp add: to_field_def)
  have 6: "\<forall>e. define_document_fields decl = Inl e \<longrightarrow>
          (\<exists>n c. (n, c) \<in> set decl \<and> model_field_class_to_field_class c = None
             \<and> e = ModelFieldNotMappedError
                     (''Cannot convert model field '' @ n @ '' to an Elasticsearch field!''))"
    using define_document_fields_fails by blast
  have 7: "(\<forall>n h i r a. prepare_with_related d n = Some h
              \<longrightarrow> \<not> raises_ModelFieldNotMappedError (h i r a))
        \<and> (\<forall>n h i a. prepare_hook d n = Some h \<longrightarrow> \<not> raises_ModelFieldNotMappedError (h i a))
        \<and> (\<forall>n v f a. \<not> raises_ModelFieldNotMappedError (translate_field d n v f a))
        \<and> (\<forall>f i r a. \<not> raises_ModelFieldNotMappedError (get_value_from_instance d f i r a))
        \<and> (\<forall>alias items kw. \<not> raises_ModelFieldNotMappedError (cluster alias items kw))
       \<longrightarrow> \<not> raises_ModelFieldNotMappedError
              (fst (update st d cluster thing refresh action fs kwargs t))"
    using update_not_unmapped [of d cluster st thing refresh action fs kwargs t] by blast
  from 1 to_field_fails_iff_other [of n c] 3 4 define_document_fields_fails_iff [of decl] 6 7
  show ?thesis by blast
qed

theorem to_field_error_iff_unmapped_witness:
  "to_field ''owner'' (models_Other ''ForeignKey'')
     = Inl (ModelFieldNotMappedError
              ''Cannot convert model field owner to an Elasticsearch field!'')
   \<and> model_field_class_to_field_class (models_Other ''ForeignKey'') = None
   \<and> model_field_class_to_field_class models_CharField = Some TextField
   \<and> to_field ''title'' models_CharField = Inr \<lparr>constructed_class = TextField, attr = ''title''\<rparr>
   \<and> define_document_fields
         [(''title'', models_CharField), (''owner'', models_Other ''ForeignKey'')]
       = Inl (ModelFieldNotMappedError
                ''Cannot convert model field owner to an Elasticsearch field!'')
   \<and> \<not> raises_ModelFieldNotMappedError
         (fst (update example_settings car_document count_cluster (Model ''kia'') None
                 ''index'' True Map.empty Deactivated))"
proof -
  have h1: "\<forall>n h i r a. prepare_with_related car_document n = Some h
          \<longrightarrow> \<not> raises_ModelFieldNotMappedError (h i r a)"
    by (auto simp add: car_document_def raises_ModelFieldNotMappedError_def split: if_splits)
  have h2: "\<forall>n h i a. prepare_hook car_document n = Some h
          \<longrightarrow> \<not> raises_ModelFieldNotMappedError (h i a)"
    by (auto simp add: car_document_def raises_ModelFieldNotMappedError_def split: if_splits)
  have h3: "\<forall>n v f a. \<not> raises_ModelFieldNotMappedError (translate_field car_document n v f a)"
    by (simp add: car_document_def raises_ModelFieldNotMappedError_def
        DocType_translate_field_def)
  have h4: "\<forall>f i r a. \<not> raises_ModelFieldNotMappedError
                        (get_value_from_instance car_document f i r a)"
    by (simp add: car_document_def raises_ModelFieldNotMappedError_def)
  have h5: "\<forall>alias items kw. \<not> raises_ModelFieldNotMappedError
                                 (count_cluster alias (items :: bulk_action list) kw)"
    by (simp add: count_cluster_def raises_ModelFieldNotMappedError_def)
  from to_field_error_iff_unmapped [of "''owner''" "models_Other ''ForeignKey''"
      "[(''title'', models_CharField), (''owner'', models_Other ''ForeignKey'')]"
      car_document count_cluster example_settings "Model ''kia''" None "''index''" True
      Map.empty Deactivated]
    to_field_error_iff_unmapped [of "''title''" models_CharField "[]"
      car_document count_cluster example_settings "Model ''kia''" None "''index''" True
      Map.empty Deactivated]
    h1 h2 h3 h4 h5
  show ?thesis
    by (simp add: to_field_def)
qed

end
